theory Spec2Isabelle
  imports Main "HOL-Library.Sublist" "HOL-Library.Multiset"
begin

chapter \<open>yesno-trainer: the transcript classifier, the session sequencer and the practice controller\<close>

text \<open>
  A shallow embedding of \<^verbatim>\<open>src/App.jsx\<close>. Strings are lists of UTF-16 code units below
  256 (HOL's \<^typ>\<open>char\<close>), which covers every phrase of the classifier.
\<close>

section \<open>Transcript classifier (\<^verbatim>\<open>parseYesNo\<close>)\<close>

text \<open>The two results \<^verbatim>\<open>"yes"\<close> and \<^verbatim>\<open>"no"\<close>; \<^verbatim>\<open>null\<close> is \<^term>\<open>None\<close>.\<close>

datatype answer = Yes | No

text \<open>
  \<^verbatim>\<open>String.prototype.toLowerCase\<close> on code units below 256: the letters A-Z and the
  Latin-1 capitals (0xC0-0xDE without the multiplication sign 0xD7) move up by 32.
\<close>

definition toLowerChar :: "char \<Rightarrow> char" where
  "toLowerChar c =
     (let n = (of_char c :: nat)
      in if (65 \<le> n \<and> n \<le> 90) \<or> (192 \<le> n \<and> n \<le> 222 \<and> n \<noteq> 215)
         then char_of (n + 32) else c)"

definition toLowerCase :: "string \<Rightarrow> string" where
  "toLowerCase s = map toLowerChar s"

text \<open>
  \<^verbatim>\<open>String.prototype.trim\<close> strips white space and line terminators at both ends; below 256
  these are TAB, LF, VT, FF, CR, SP and NBSP.
\<close>

definition isWhiteSpace :: "char \<Rightarrow> bool" where
  "isWhiteSpace c = ((of_char c :: nat) \<in> {9, 10, 11, 12, 13, 32, 160})"

definition trim :: "string \<Rightarrow> string" where
  "trim s = rev (dropWhile isWhiteSpace (rev (dropWhile isWhiteSpace s)))"

text \<open>\<^verbatim>\<open>t.startsWith(w)\<close> and \<^verbatim>\<open>t.includes(s)\<close>, as scans over the code units.\<close>

fun startsWith :: "string \<Rightarrow> string \<Rightarrow> bool" where
  "startsWith t [] = True"
| "startsWith [] (c # w) = False"
| "startsWith (x # t) (c # w) = (x = c \<and> startsWith t w)"

fun includes_str :: "string \<Rightarrow> string \<Rightarrow> bool" where
  "includes_str [] s = (s = [])"
| "includes_str (x # t) s = (startsWith (x # t) s \<or> includes_str t s)"

definition yesWords :: "string list" where
  "yesWords = [''yes'', ''yeah'', ''yep'', ''yup'', ''sure'', ''of course'', ''i do'', ''i did'',
               ''i am'', ''i will'', ''i can'', ''it is'']"

definition noWords :: "string list" where
  "noWords = [''no'', ''nope'', ''nah'', ''not'', ''i don't'', ''i did not'', ''i didn't'',
              ''i am not'', ''i won't'', ''i will not'', ''i can't'', ''cannot'', ''it isn't'',
              ''it is not'']"

text \<open>The test of one phrase: \<^verbatim>\<open>t.startsWith(w) || t.includes(` ${w} `) || t === w\<close>.\<close>

definition phraseMatches :: "string \<Rightarrow> string \<Rightarrow> bool" where
  "phraseMatches t w = (startsWith t w \<or> includes_str t ('' '' @ w @ '' '') \<or> t = w)"

text \<open>
  \<^verbatim>\<open>parseYesNo(transcript)\<close>. A missing transcript (\<^verbatim>\<open>null\<close>, \<^verbatim>\<open>undefined\<close>) is
  \<^term>\<open>None\<close>; it and the empty string are the falsy inputs of the first line.
\<close>

definition parseYesNo :: "string option \<Rightarrow> answer option" where
  "parseYesNo transcript =
     (case transcript of
        None \<Rightarrow> None
      | Some tr \<Rightarrow>
          if tr = [] then None
          else let t = trim (toLowerCase tr)
               in if list_ex (phraseMatches t) yesWords then Some Yes
                  else if list_ex (phraseMatches t) noWords then Some No
                  else None)"

text \<open>
  The table of the development self-tests (the effect that runs \<^verbatim>\<open>console.assert\<close> on
  each pair), and the pairs on which the assertion fails.
\<close>

definition selfTestCases :: "(string \<times> answer option) list" where
  "selfTestCases =
     [(''Yes'', Some Yes), (''No'', Some No), (''Yeah, I think so'', Some Yes),
      (''Nope, I don't'', Some No), (''I don't know'', Some No), (''Absolutely yes'', Some Yes),
      (''Not really'', Some No), (''Maybe'', None), (''Yes, I can.'', Some Yes),
      (''I will not.'', Some No), (''It is.'', Some Yes), (''It isn't.'', Some No),
      (''Sure.'', Some Yes), (''No, thanks.'', Some No)]"

definition selfTestFailures :: "(string \<times> answer option) list" where
  "selfTestFailures = filter (\<lambda>(input, expected). parseYesNo (Some input) \<noteq> expected) selfTestCases"

subsection \<open>The matching rule in the specification's words\<close>

text \<open>
  The specification's rule, for comparison with \<^const>\<open>phraseMatches\<close>: the normalized
  transcript equals the phrase, starts with it, or contains it surrounded by spaces.
\<close>

definition spec_matches :: "string \<Rightarrow> string \<Rightarrow> bool" where
  "spec_matches t w = (t = w \<or> prefix w t \<or> sublist ('' '' @ w @ '' '') t)"

text \<open>
  The specification's reading of a match "as a whole word or phrase, not as a substring of an
  unrelated word": the phrase occurs at some position where no letter touches it on either
  side.
\<close>

definition isLetter :: "char \<Rightarrow> bool" where
  "isLetter c = (let n = (of_char c :: nat) in (65 \<le> n \<and> n \<le> 90) \<or> (97 \<le> n \<and> n \<le> 122))"

definition spec_wholeWordAt :: "string \<Rightarrow> string \<Rightarrow> nat \<Rightarrow> bool" where
  "spec_wholeWordAt t w i =
     (take (length w) (drop i t) = w
      \<and> (i = 0 \<or> \<not> isLetter (t ! (i - 1)))
      \<and> (length t \<le> i + length w \<or> \<not> isLetter (t ! (i + length w))))"

definition spec_wholeWord :: "string \<Rightarrow> string \<Rightarrow> bool" where
  "spec_wholeWord t w = list_ex (spec_wholeWordAt t w) [0..<Suc (length t)]"

section \<open>Question items and the React state\<close>

text \<open>
  A question item, in the shape of \<^verbatim>\<open>defaultItems\<close>. The field \<^verbatim>\<open>id\<close> is \<open>item_id\<close> here.
\<close>

record item =
  item_id :: int
  topic :: string
  question :: string
  yesSample :: string
  noSample :: string


datatype phase = Idle | Practice | Reveal

text \<open>The state \<^verbatim>\<open>needed\<close>: which of the two answers has not been heard yet.\<close>

record tracker =
  yes :: bool
  no :: bool

text \<open>
  The values of the \<^verbatim>\<open>useState\<close> hooks that the control flow reads (\<^verbatim>\<open>random\<close> is
  \<open>randomMode\<close>; voice, rate, pitch, microphone and meter state are left out, nothing below
  depends on them). One value of this type is also what the closures of one render see:
  \<^verbatim>\<open>ask\<close>, \<^verbatim>\<open>reveal\<close>, \<^verbatim>\<open>goNext\<close>, \<^verbatim>\<open>fastReveal\<close> and \<^verbatim>\<open>buildSession\<close> are declared in the
  component body, so each of them reads the constants of the render that created it, while
  every \<^verbatim>\<open>setX\<close> call writes to the state that the next render will show. The functions
  below therefore take the captured render \<open>h\<close> and the world \<open>w\<close> they act on.
\<close>

record hooks =
  items :: "item list"
  currentIndex :: nat
  listening :: bool
  recognized :: string
  randomMode :: bool
  useTTS :: bool
  needed :: tracker
  practiceSec :: nat
  phase :: phase
  selectedTopic :: string
  sessionSet :: "int list option"
  sessionCursor :: nat

text \<open>
  The callbacks handed to \<^verbatim>\<open>setTimeout\<close>: \<^verbatim>\<open>() => reveal()\<close> (the practice countdown),
  \<^verbatim>\<open>() => startRecognition()\<close> and \<^verbatim>\<open>() => ask()\<close>, each with the render it closes over.
\<close>

datatype callback =
    RevealCb hooks
  | StartRecognitionCb
  | AskCb hooks

text \<open>
  The \<^verbatim>\<open>onend\<close> callbacks handed to \<^verbatim>\<open>speak\<close>: the one of \<^verbatim>\<open>ask\<close> and the one of
  \<^verbatim>\<open>reveal\<close> (\<^verbatim>\<open>() => { goNext(); }\<close>).
\<close>

datatype speech_callback =
    AskSpoken hooks
  | AnswerSpoken hooks

datatype alert = SessionFinished

text \<open>
  The component together with the browser around it: the React state, the two refs that the
  flow uses, the render captured by \<^verbatim>\<open>rec.onresult\<close>, the armed timeouts (handle, delay in
  milliseconds, callback), the utterance being spoken, the callbacks owed to utterances that
  \<^verbatim>\<open>speechSynthesis.cancel()\<close> interrupted, whether a recognition session is running, whether
  \<^verbatim>\<open>rec.start()\<close> and \<^verbatim>\<open>new SpeechSynthesisUtterance\<close> throw, the values that
  \<^verbatim>\<open>Math.random\<close> will produce, and the alerts shown.
\<close>

record world =
  state :: hooks
  autoAdvanceRef :: bool
  practiceTimerRef :: "nat option"
  recHandlerRender :: hooks
  timers :: "(nat \<times> nat \<times> callback) list"
  nextTimerId :: nat
  speaking :: "(string \<times> speech_callback option) option"
  cancelled :: "speech_callback list"
  recActive :: bool
  recStartThrows :: bool
  speakThrows :: bool
  randoms :: "nat list"
  alerts :: "alert list"

text \<open>\<^verbatim>\<open>xs[i]\<close>: \<^verbatim>\<open>undefined\<close> out of range.\<close>

definition nth_opt :: "'a list \<Rightarrow> nat \<Rightarrow> 'a option" where
  "nth_opt xs i = (if i < length xs then Some (xs ! i) else None)"

text \<open>\<^verbatim>\<open>a || b || c\<close> on values that are objects or \<^verbatim>\<open>undefined\<close>.\<close>

definition firstOf :: "'a option list \<Rightarrow> 'a option" where
  "firstOf xs = (case List.find (\<lambda>x. x \<noteq> None) xs of None \<Rightarrow> None | Some x \<Rightarrow> x)"

text \<open>\<^verbatim>\<open>it.topic || "Untitled"\<close>.\<close>

definition topicOf :: "item \<Rightarrow> string" where
  "topicOf it = (if topic it = [] then ''Untitled'' else topic it)"

text \<open>The topic-filtered pool, as computed in \<^verbatim>\<open>viewItems\<close> and in \<^verbatim>\<open>buildSession\<close>.\<close>

definition pool :: "hooks \<Rightarrow> item list" where
  "pool h = (if selectedTopic h = ''All'' then items h
             else filter (\<lambda>it. topicOf it = selectedTopic h) (items h))"

definition viewItems :: "hooks \<Rightarrow> item list" where
  "viewItems h =
     (case sessionSet h of
        None \<Rightarrow> pool h
      | Some ids \<Rightarrow> filter (\<lambda>it. List.member ids (item_id it)) (pool h))"

text \<open>The guard \<^verbatim>\<open>sessionSet && sessionSet.length\<close> of \<^verbatim>\<open>current\<close> and \<^verbatim>\<open>goNext\<close>.\<close>

definition sessionActive :: "hooks \<Rightarrow> bool" where
  "sessionActive h = (case sessionSet h of None \<Rightarrow> False | Some ids \<Rightarrow> ids \<noteq> [])"

definition current :: "hooks \<Rightarrow> item option" where
  "current h =
     (if sessionActive h then
        (let ids = the (sessionSet h);
             i = (case nth_opt ids (sessionCursor h) of Some i \<Rightarrow> i | None \<Rightarrow> ids ! 0)
         in firstOf [List.find (\<lambda>it. item_id it = i) (items h), nth_opt (viewItems h) 0,
                     nth_opt (items h) 0])
      else firstOf [nth_opt (viewItems h) (currentIndex h), nth_opt (viewItems h) 0,
                    nth_opt (items h) 0])"

section \<open>Browser timers, speech synthesis and speech recognition\<close>

definition setTimeout :: "callback \<Rightarrow> nat \<Rightarrow> world \<Rightarrow> nat \<times> world" where
  "setTimeout cb ms w =
     (nextTimerId w,
      w\<lparr>timers := timers w @ [(nextTimerId w, ms, cb)], nextTimerId := Suc (nextTimerId w)\<rparr>)"

definition clearTimeout :: "nat option \<Rightarrow> world \<Rightarrow> world" where
  "clearTimeout handle w =
     (case handle of
        None \<Rightarrow> w
      | Some i \<Rightarrow> w\<lparr>timers := filter (\<lambda>t. fst t \<noteq> i) (timers w)\<rparr>)"

text \<open>
  \<^verbatim>\<open>speak(text, voice, rate, pitch, onend)\<close>: \<^verbatim>\<open>speechSynthesis.cancel()\<close> interrupts the
  utterance being spoken, whose \<^verbatim>\<open>onend\<close>/\<^verbatim>\<open>onerror\<close> callback is then owed by the browser;
  the new utterance takes its place. An exception is caught and nothing happens.
\<close>

definition speak :: "string \<Rightarrow> speech_callback option \<Rightarrow> world \<Rightarrow> world" where
  "speak text onend w =
     (if speakThrows w then w
      else w\<lparr>cancelled := cancelled w @ (case speaking w of Some (_, Some cb) \<Rightarrow> [cb] | _ \<Rightarrow> []),
             speaking := Some (text, onend)\<rparr>)"

definition setListening :: "bool \<Rightarrow> world \<Rightarrow> world" where
  "setListening b w = w\<lparr>state := (state w)\<lparr>listening := b\<rparr>\<rparr>"

definition setPhase :: "phase \<Rightarrow> world \<Rightarrow> world" where
  "setPhase p w = w\<lparr>state := (state w)\<lparr>phase := p\<rparr>\<rparr>"

definition setNeeded :: "tracker \<Rightarrow> world \<Rightarrow> world" where
  "setNeeded n w = w\<lparr>state := (state w)\<lparr>needed := n\<rparr>\<rparr>"

definition setRecognized :: "string \<Rightarrow> world \<Rightarrow> world" where
  "setRecognized txt w = w\<lparr>state := (state w)\<lparr>recognized := txt\<rparr>\<rparr>"

definition setSessionSet :: "int list option \<Rightarrow> world \<Rightarrow> world" where
  "setSessionSet s w = w\<lparr>state := (state w)\<lparr>sessionSet := s\<rparr>\<rparr>"

definition setSessionCursor :: "nat \<Rightarrow> world \<Rightarrow> world" where
  "setSessionCursor c w = w\<lparr>state := (state w)\<lparr>sessionCursor := c\<rparr>\<rparr>"

definition setCurrentIndex :: "nat \<Rightarrow> world \<Rightarrow> world" where
  "setCurrentIndex i w = w\<lparr>state := (state w)\<lparr>currentIndex := i\<rparr>\<rparr>"

text \<open>\<^verbatim>\<open>recRef.current?.stop?.()\<close>.\<close>

definition recStop :: "world \<Rightarrow> world" where
  "recStop w = w\<lparr>recActive := False\<rparr>"

definition startRecognition :: "world \<Rightarrow> world" where
  "startRecognition w =
     (let w1 = recStop w
      in if recStartThrows w1 then setListening False w1
         else setListening True (w1\<lparr>recActive := True\<rparr>))"

definition resetNeeded :: "world \<Rightarrow> world" where
  "resetNeeded w = setRecognized [] (setNeeded \<lparr>yes = True, no = True\<rparr> w)"

section \<open>Session helpers and the practice flow\<close>

text \<open>\<^verbatim>\<open>Array.from(new Set(xs))\<close>: the first occurrence of every value, in order.\<close>

definition uniqueIds :: "int list \<Rightarrow> int list" where
  "uniqueIds xs = rev (remdups (rev xs))"

text \<open>
  \<^verbatim>\<open>buildSession(count)\<close>. The argument \<open>sortRandom\<close> stands for
  \<^verbatim>\<open>unique.sort(() => Math.random() - 0.5)\<close>, whose result the engine chooses.
\<close>

definition buildSession :: "(int list \<Rightarrow> int list) \<Rightarrow> nat \<Rightarrow> hooks \<Rightarrow> world \<Rightarrow> world" where
  "buildSession sortRandom cnt h w =
     (let unique = uniqueIds (map item_id (pool h));
          shuffled = sortRandom unique;
          ids = take (min cnt (length shuffled)) shuffled
      in (resetNeeded (setSessionCursor 0 (setSessionSet (Some ids) w)))\<lparr>autoAdvanceRef := True\<rparr>)"

text \<open>
  The two lines \<^verbatim>\<open>clearTimeout(practiceTimerRef.current); practiceTimerRef.current =
  setTimeout(() => reveal(), practiceSec * 1000)\<close>, which occur in both branches of \<^verbatim>\<open>ask\<close>.
\<close>

definition armPracticeTimer :: "hooks \<Rightarrow> world \<Rightarrow> world" where
  "armPracticeTimer h w =
     (let w1 = clearTimeout (practiceTimerRef w) w;
          (i, w2) = setTimeout (RevealCb h) (practiceSec h * 1000) w1
      in w2\<lparr>practiceTimerRef := Some i\<rparr>)"

definition ask :: "hooks \<Rightarrow> world \<Rightarrow> world" where
  "ask h w =
     (let w1 = setPhase Practice (resetNeeded w);
          q = (case current h of None \<Rightarrow> [] | Some it \<Rightarrow> question it)
      in if useTTS h then speak q (Some (AskSpoken h)) w1
         else armPracticeTimer h (startRecognition w1))"

text \<open>The \<^verbatim>\<open>onend\<close> callback that \<^verbatim>\<open>ask\<close> hands to \<^verbatim>\<open>speak\<close>.\<close>

definition askSpoken :: "hooks \<Rightarrow> world \<Rightarrow> world" where
  "askSpoken h w = armPracticeTimer h (snd (setTimeout StartRecognitionCb 200 w))"

text \<open>\<^verbatim>\<open>Math.floor(Math.random() * n)\<close>: the next random value, brought below \<open>n\<close>.\<close>

definition randomIndex :: "nat \<Rightarrow> world \<Rightarrow> nat \<times> world" where
  "randomIndex n w =
     (case randoms w of
        [] \<Rightarrow> (0, w)
      | r # rs \<Rightarrow> (r mod n, w\<lparr>randoms := rs\<rparr>))"

text \<open>The \<^verbatim>\<open>while\<close> loop of \<^verbatim>\<open>goNext\<close> that redraws an immediate repeat, at most ten times.\<close>

function redraw :: "item list \<Rightarrow> int option \<Rightarrow> nat \<Rightarrow> nat \<Rightarrow> world \<Rightarrow> nat \<times> world" where
  "redraw view currentId idx guard w =
     (if (case nth_opt view idx of None \<Rightarrow> False | Some it \<Rightarrow> Some (item_id it) = currentId)
         \<and> guard < 10
      then (let (idx', w') = randomIndex (length view) w in redraw view currentId idx' (Suc guard) w')
      else (idx, w))"
  by pat_completeness auto
termination
  by (relation "measure (\<lambda>(view, currentId, idx, guard, w). 10 - guard)") auto

declare redraw.simps [simp del]

definition goNext :: "hooks \<Rightarrow> world \<Rightarrow> world" where
  "goNext h w =
     (if sessionActive h then
        (let next = sessionCursor h + 1
         in if next < length (the (sessionSet h))
            then (resetNeeded (setSessionCursor next w))\<lparr>autoAdvanceRef := True\<rparr>
            else (setSessionSet None (setPhase Idle w))\<lparr>alerts := alerts w @ [SessionFinished]\<rparr>)
      else if viewItems h = [] then w
      else
        (let w1 =
               (if randomMode h then
                  (let currentId = map_option item_id (current h);
                       (idx, wa) = randomIndex (length (viewItems h)) w;
                       (idx', wb) = (if length (viewItems h) > 1
                                     then redraw (viewItems h) currentId idx 0 wa else (idx, wa))
                   in setCurrentIndex idx' wb)
                else setCurrentIndex ((currentIndex (state w) + 1) mod length (viewItems h)) w)
         in (resetNeeded w1)\<lparr>autoAdvanceRef := True\<rparr>))"

definition reveal :: "hooks \<Rightarrow> world \<Rightarrow> world" where
  "reveal h w =
     (let w1 = recStop (setPhase Reveal w);
          ansText = ''Answer: '' @ (case current h of None \<Rightarrow> [] | Some it \<Rightarrow> yesSample it)
                    @ '' / '' @ (case current h of None \<Rightarrow> [] | Some it \<Rightarrow> noSample it)
      in if useTTS h then speak ansText (Some (AnswerSpoken h)) w1
         else goNext h w1)"

definition fastReveal :: "hooks \<Rightarrow> world \<Rightarrow> world" where
  "fastReveal h w =
     (if phase h \<noteq> Practice then w
      else reveal h (clearTimeout (practiceTimerRef w) w))"

text \<open>
  \<^verbatim>\<open>rec.onresult\<close>, for an event with the given \<^verbatim>\<open>resultIndex\<close> and \<^verbatim>\<open>results\<close> (the first
  alternative's transcript and the \<^verbatim>\<open>isFinal\<close> flag of each result). The handler belongs to
  the render \<open>h\<close> in which the effect that installed it ran, and so does the \<^verbatim>\<open>fastReveal\<close> it
  calls. With no result at all, reading \<^verbatim>\<open>isFinal\<close> throws after \<^verbatim>\<open>setRecognized\<close>. The
  updater passed to \<^verbatim>\<open>setNeeded\<close> works on the latest tracker; what \<^verbatim>\<open>fastReveal\<close> sets is
  queued behind it.
\<close>

definition onresult :: "hooks \<Rightarrow> nat \<Rightarrow> (string \<times> bool) list \<Rightarrow> world \<Rightarrow> world" where
  "onresult h resultIndex results w =
     (let txt = concat (map fst (drop resultIndex results));
          w1 = setRecognized txt w
      in if results = [] then w1
         else if snd (last results) then
           (case parseYesNo (Some txt) of
              None \<Rightarrow> w1
            | Some yn \<Rightarrow>
                (let prev = needed (state w1);
                     next = (case yn of Yes \<Rightarrow> prev\<lparr>yes := False\<rparr> | No \<Rightarrow> prev\<lparr>no := False\<rparr>);
                     w2 = setNeeded next w1
                 in if \<not> yes next \<and> \<not> no next then fastReveal h w2 else w2))
         else w1)"

section \<open>Events\<close>

text \<open>
  What can happen to the mounted component: the user's clicks and inputs, a timeout that fires,
  the end (or error) of the utterance being spoken, the \<^verbatim>\<open>onend\<close>/\<^verbatim>\<open>onerror\<close> event of an
  interrupted utterance, a recognition result, and the end (or error) of recognition.
  \<open>SetItems\<close> stands for every handler that replaces the item list (add, edit, delete,
  import).
\<close>

datatype event =
    ClickAsk
  | ClickStartSession "int list \<Rightarrow> int list"
  | SelectTopic string
  | SetPracticeSec nat
  | SetUseTTS bool
  | SetRandom bool
  | SetItems "item list"
  | ClickTestPlay
  | TimerFires nat
  | UtteranceEnds
  | CancelledUtteranceEnds
  | RecResult nat "(string \<times> bool) list"
  | RecEnds

definition runSpeechCallback :: "speech_callback option \<Rightarrow> world \<Rightarrow> world" where
  "runSpeechCallback cb w =
     (case cb of
        None \<Rightarrow> w
      | Some (AskSpoken h) \<Rightarrow> askSpoken h w
      | Some (AnswerSpoken h) \<Rightarrow> goNext h w)"

definition runCallback :: "callback \<Rightarrow> world \<Rightarrow> world" where
  "runCallback cb w =
     (case cb of
        RevealCb h \<Rightarrow> reveal h w
      | StartRecognitionCb \<Rightarrow> startRecognition w
      | AskCb h \<Rightarrow> ask h w)"

text \<open>
  The handler of one event. Handlers attached by JSX (\<^verbatim>\<open>onClick={ask}\<close>, ...) belong to the
  latest render; the ask button is disabled without a current item and the session button is
  shown only while \<^verbatim>\<open>sessionSet\<close> is \<^verbatim>\<open>null\<close>. The recognition handler is the one installed
  by the effect with dependencies \<^verbatim>\<open>[recAvailable, targetLang]\<close>. Recognition runs with
  \<^verbatim>\<open>continuous = false\<close>: results arrive only while a session runs, and a final result ends
  it.
\<close>

definition handle :: "event \<Rightarrow> world \<Rightarrow> world" where
  "handle e w =
     (case e of
        ClickAsk \<Rightarrow> (if current (state w) = None then w else ask (state w) w)
      | ClickStartSession sortRandom \<Rightarrow>
          (if sessionSet (state w) = None then buildSession sortRandom 10 (state w) w else w)
      | SelectTopic t \<Rightarrow>
          setCurrentIndex 0 (setSessionCursor 0 (setSessionSet None
            (w\<lparr>state := (state w)\<lparr>selectedTopic := t\<rparr>\<rparr>)))
      | SetPracticeSec v \<Rightarrow>
          w\<lparr>state := (state w)\<lparr>practiceSec := max 3 (min 20 (if v = 0 then 8 else v))\<rparr>\<rparr>
      | SetUseTTS b \<Rightarrow> w\<lparr>state := (state w)\<lparr>useTTS := b\<rparr>\<rparr>
      | SetRandom b \<Rightarrow> w\<lparr>state := (state w)\<lparr>randomMode := b\<rparr>\<rparr>
      | SetItems its \<Rightarrow> w\<lparr>state := (state w)\<lparr>items := its\<rparr>\<rparr>
      | ClickTestPlay \<Rightarrow>
          speak (case current (state w) of None \<Rightarrow> [] | Some it \<Rightarrow> question it) None w
      | TimerFires i \<Rightarrow>
          (case List.find (\<lambda>t. fst t = i) (timers w) of
             None \<Rightarrow> w
           | Some (_, _, cb) \<Rightarrow> runCallback cb (w\<lparr>timers := filter (\<lambda>t. fst t \<noteq> i) (timers w)\<rparr>))
      | UtteranceEnds \<Rightarrow>
          (case speaking w of
             None \<Rightarrow> w
           | Some (_, cb) \<Rightarrow> runSpeechCallback cb (w\<lparr>speaking := None\<rparr>))
      | CancelledUtteranceEnds \<Rightarrow>
          (case cancelled w of
             [] \<Rightarrow> w
           | cb # rest \<Rightarrow> runSpeechCallback (Some cb) (w\<lparr>cancelled := rest\<rparr>))
      | RecResult resultIndex results \<Rightarrow>
          (if recActive w
           then (let w1 = onresult (recHandlerRender w) resultIndex results w
                 in if results \<noteq> [] \<and> snd (last results) then w1\<lparr>recActive := False\<rparr> else w1)
           else w)
      | RecEnds \<Rightarrow> setListening False (w\<lparr>recActive := False\<rparr>))"

text \<open>
  The effect with dependencies \<^verbatim>\<open>[sessionCursor, currentIndex]\<close>, run after the render that
  follows a handler; \<open>prev\<close> is the render before. Its \<^verbatim>\<open>ask\<close> is the one of the new render.
\<close>

definition autoAdvanceEffect :: "hooks \<Rightarrow> world \<Rightarrow> world" where
  "autoAdvanceEffect prev w =
     (if sessionCursor (state w) \<noteq> sessionCursor prev \<or> currentIndex (state w) \<noteq> currentIndex prev
      then (if autoAdvanceRef w
            then snd (setTimeout (AskCb (state w)) 0 (w\<lparr>autoAdvanceRef := False\<rparr>))
            else w)
      else w)"

text \<open>
  One event: the handler runs to its end with the state updates batched, React renders once,
  and the effects of that render run.
\<close>

definition step :: "event \<Rightarrow> world \<Rightarrow> world" where
  "step e w = autoAdvanceEffect (state w) (handle e w)"

definition run :: "event list \<Rightarrow> world \<Rightarrow> world" where
  "run es w = foldl (\<lambda>w e. step e w) w es"

text \<open>
  The first render and its effects. \<open>its\<close> is what \<^verbatim>\<open>loadFromLocalStorage()\<close> returned. The
  effect that installs \<^verbatim>\<open>rec.onresult\<close> runs here and, since neither \<^verbatim>\<open>recAvailable\<close> nor
  \<^verbatim>\<open>targetLang\<close> ever changes (\<^verbatim>\<open>setTargetLang\<close> is never called), never again.
\<close>

definition initialHooks :: "item list \<Rightarrow> hooks" where
  "initialHooks its =
     \<lparr>items = its, currentIndex = 0, listening = False, recognized = [], randomMode = True,
      useTTS = True, needed = \<lparr>yes = True, no = True\<rparr>, practiceSec = 8, phase = Idle,
      selectedTopic = ''All'', sessionSet = None, sessionCursor = 0\<rparr>"

definition mount :: "item list \<Rightarrow> bool \<Rightarrow> bool \<Rightarrow> nat list \<Rightarrow> world" where
  "mount its recThrows ttsThrows rnd =
     \<lparr>state = initialHooks its, autoAdvanceRef = False, practiceTimerRef = None,
      recHandlerRender = initialHooks its, timers = [], nextTimerId = 0, speaking = None,
      cancelled = [], recActive = False, recStartThrows = recThrows, speakThrows = ttsThrows,
      randoms = rnd, alerts = []\<rparr>"

subsection \<open>Countdown timers and the session cursor\<close>

definition isCountdown :: "nat \<times> nat \<times> callback \<Rightarrow> bool" where
  "isCountdown t = (case snd (snd t) of RevealCb h \<Rightarrow> True | _ \<Rightarrow> False)"

definition countdownTimers :: "world \<Rightarrow> (nat \<times> nat \<times> callback) list" where
  "countdownTimers w = filter isCountdown (timers w)"

text \<open>The question that a countdown was armed for: the current item of its render.\<close>

definition countdownQuestions :: "world \<Rightarrow> int option list" where
  "countdownQuestions w =
     map (\<lambda>t. case snd (snd t) of RevealCb h \<Rightarrow> map_option item_id (current h) | _ \<Rightarrow> None)
       (countdownTimers w)"

definition cursorValid :: "hooks \<Rightarrow> bool" where
  "cursorValid h = (sessionCursor h < length (the (sessionSet h)))"

section \<open>Import and export of the item list\<close>

text \<open>
  The value that \<^verbatim>\<open>JSON.parse\<close> returns. The representation \<open>'n\<close> of numbers is left open.
\<close>

datatype 'n json =
    JNull
  | JBool bool
  | JNumber 'n
  | JString string
  | JArray "'n json list"
  | JObject "(string \<times> 'n json) list"

datatype import_alert = NotJsonArray | JsonLoadFailed

text \<open>
  The handler passed to \<^verbatim>\<open>ImportButton\<close>:
  \<^verbatim>\<open>try { const arr = JSON.parse(text); if (Array.isArray(arr)) setItems(arr); else alert(...) }
  catch (e) { alert(...) }\<close>.
  \<^verbatim>\<open>JSON.parse\<close> belongs to the engine and is the argument \<open>parse\<close> here; \<^term>\<open>None\<close> is its
  exception.
  The handler touches the item list only, so it is a function of the list: it returns the new
  list and the alert shown, if any. It stores the parsed array as it is, whatever its elements.
\<close>

definition onImport ::
  "(string \<Rightarrow> 'n json option) \<Rightarrow> string \<Rightarrow> 'n json list \<Rightarrow> 'n json list \<times> import_alert option" where
  "onImport parse text itemList =
     (case parse text of
        None \<Rightarrow> (itemList, Some JsonLoadFailed)
      | Some (JArray arr) \<Rightarrow> (arr, None)
      | Some _ \<Rightarrow> (itemList, Some NotJsonArray))"

subsection \<open>The engine's \<^verbatim>\<open>JSON.stringify(value, null, 2)\<close>\<close>













subsection \<open>The engine's \<^verbatim>\<open>JSON.parse(text)\<close>\<close>

text \<open>
  The JSON grammar: white space is tab, line feed, carriage return and space. A number is read
  as an optional minus sign and digits without a leading zero; a literal with a fraction or an
  exponent has no value among the integers and is outside this model (it gives \<^term>\<open>None\<close>
  here), and so is a \<^verbatim>\<open>\u\<close> escape above 0xFF.
\<close>

definition isJsonWs :: "char \<Rightarrow> bool" where
  "isJsonWs c = (c = CHR 0x09 \<or> c = CHR 0x0A \<or> c = CHR 0x0D \<or> c = CHR 0x20)"

definition skipWs :: "string \<Rightarrow> string" where
  "skipWs s = dropWhile isJsonWs s"

definition isDigit :: "char \<Rightarrow> bool" where
  "isDigit c = (48 \<le> (of_char c :: nat) \<and> (of_char c :: nat) \<le> 57)"

definition digitVal :: "char \<Rightarrow> nat" where
  "digitVal c = (of_char c :: nat) - 48"

definition parseNumber :: "string \<Rightarrow> (int \<times> string) option" where
  "parseNumber s =
     (let neg = (s \<noteq> [] \<and> hd s = CHR ''-'');
          s1 = (if neg then tl s else s);
          ds = takeWhile isDigit s1;
          r = dropWhile isDigit s1
      in if ds = [] then None
         else if hd ds = CHR ''0'' \<and> 1 < length ds then None
         else if r \<noteq> [] \<and> (hd r = CHR ''.'' \<or> hd r = CHR ''e'' \<or> hd r = CHR ''E'') then None
         else (let n = foldl (\<lambda>a c. 10 * a + digitVal c) 0 ds
               in Some (if neg then - int n else int n, r)))"

definition hexVal :: "char \<Rightarrow> nat option" where
  "hexVal c =
     (let n = (of_char c :: nat)
      in if 48 \<le> n \<and> n \<le> 57 then Some (n - 48)
         else if 97 \<le> n \<and> n \<le> 102 then Some (n - 87)
         else if 65 \<le> n \<and> n \<le> 70 then Some (n - 55)
         else None)"

definition unescape :: "char \<Rightarrow> char option" where
  "unescape e =
     (if e = CHR 0x22 then Some (CHR 0x22)
      else if e = CHR 0x5C then Some (CHR 0x5C)
      else if e = CHR ''/'' then Some CHR ''/''
      else if e = CHR ''b'' then Some (CHR 0x08)
      else if e = CHR ''f'' then Some (CHR 0x0C)
      else if e = CHR ''n'' then Some (CHR 0x0A)
      else if e = CHR ''r'' then Some (CHR 0x0D)
      else if e = CHR ''t'' then Some (CHR 0x09)
      else None)"

definition hex4 :: "string \<Rightarrow> nat option" where
  "hex4 hs =
     (if length hs = 4 \<and> list_all (\<lambda>c. hexVal c \<noteq> None) hs
      then Some (foldl (\<lambda>a c. 16 * a + the (hexVal c)) 0 hs) else None)"

definition consChar :: "char \<Rightarrow> (string \<times> string) option \<Rightarrow> (string \<times> string) option" where
  "consChar c res = (case res of None \<Rightarrow> None | Some (s, r) \<Rightarrow> Some (c # s, r))"

text \<open>The characters of a string after its opening quotation mark, up to the closing one.\<close>

fun parseChars :: "string \<Rightarrow> (string \<times> string) option" where
  "parseChars [] = None"
| "parseChars (c # r) =
     (if c = CHR 0x22 then Some ([], r)
      else if c = CHR 0x5C then
        (case r of
           [] \<Rightarrow> None
         | e # r' \<Rightarrow>
             if e = CHR ''u'' then
               (case hex4 (take 4 r') of
                  None \<Rightarrow> None
                | Some code \<Rightarrow> if code < 256 then consChar (char_of code) (parseChars (drop 4 r')) else None)
             else (case unescape e of
                     None \<Rightarrow> None
                   | Some ch \<Rightarrow> consChar ch (parseChars r')))
      else if (of_char c :: nat) < 32 then None
      else consChar c (parseChars r))"

text \<open>
  The properties of a parsed object: a key that occurs again keeps its place and takes the later
  value. (The engine also moves keys that are array indices to the front; the objects of the
  round trip below have none.)
\<close>

definition setProp :: "string \<Rightarrow> 'v \<Rightarrow> (string \<times> 'v) list \<Rightarrow> (string \<times> 'v) list" where
  "setProp k v kvs =
     (if k \<in> fst ` set kvs then map (\<lambda>kv. if fst kv = k then (k, v) else kv) kvs
      else kvs @ [(k, v)])"

definition objectOf :: "(string \<times> 'v) list \<Rightarrow> (string \<times> 'v) list" where
  "objectOf kvs = foldl (\<lambda>acc kv. setProp (fst kv) (snd kv) acc) [] kvs"

text \<open>
  A value, the elements of an array after its opening bracket, and the members of an object
  after its opening brace. The first argument bounds the number of nested calls; the length of
  the text is enough for every text, since each call consumes a character.
\<close>

fun parseValue :: "nat \<Rightarrow> string \<Rightarrow> (int json \<times> string) option"
  and parseElements :: "nat \<Rightarrow> string \<Rightarrow> (int json list \<times> string) option"
  and parseMembers :: "nat \<Rightarrow> string \<Rightarrow> ((string \<times> int json) list \<times> string) option"
where
  "parseValue 0 s = None"
| "parseValue (Suc n) s =
     (let t = skipWs s
      in if t = [] then None
         else if hd t = CHR ''['' then
           (if skipWs (tl t) \<noteq> [] \<and> hd (skipWs (tl t)) = CHR '']''
            then Some (JArray [], tl (skipWs (tl t)))
            else (case parseElements n (tl t) of
                    None \<Rightarrow> None
                  | Some (vs, r) \<Rightarrow> Some (JArray vs, r)))
         else if hd t = CHR ''{'' then
           (if skipWs (tl t) \<noteq> [] \<and> hd (skipWs (tl t)) = CHR ''}''
            then Some (JObject [], tl (skipWs (tl t)))
            else (case parseMembers n (tl t) of
                    None \<Rightarrow> None
                  | Some (kvs, r) \<Rightarrow> Some (JObject (objectOf kvs), r)))
         else if hd t = CHR 0x22 then
           (case parseChars (tl t) of
              None \<Rightarrow> None
            | Some (str, r) \<Rightarrow> Some (JString str, r))
         else if take 4 t = ''null'' then Some (JNull, drop 4 t)
         else if take 4 t = ''true'' then Some (JBool True, drop 4 t)
         else if take 5 t = ''false'' then Some (JBool False, drop 5 t)
         else (case parseNumber t of
                 None \<Rightarrow> None
               | Some (i, r) \<Rightarrow> Some (JNumber i, r)))"
| "parseElements 0 s = None"
| "parseElements (Suc n) s =
     (case parseValue n s of
        None \<Rightarrow> None
      | Some (v, r) \<Rightarrow>
          (let t = skipWs r
           in if t = [] then None
              else if hd t = CHR '','' then
                (case parseElements n (tl t) of
                   None \<Rightarrow> None
                 | Some (vs, r') \<Rightarrow> Some (v # vs, r'))
              else if hd t = CHR '']'' then Some ([v], tl t)
              else None))"
| "parseMembers 0 s = None"
| "parseMembers (Suc n) s =
     (let t = skipWs s
      in if t = [] \<or> hd t \<noteq> CHR 0x22 then None
         else (case parseChars (tl t) of
                 None \<Rightarrow> None
               | Some (k, r1) \<Rightarrow>
                   (let t1 = skipWs r1
                    in if t1 = [] \<or> hd t1 \<noteq> CHR '':'' then None
                       else (case parseValue n (tl t1) of
                               None \<Rightarrow> None
                             | Some (v, r2) \<Rightarrow>
                                 (let t2 = skipWs r2
                                  in if t2 = [] then None
                                     else if hd t2 = CHR '','' then
                                       (case parseMembers n (tl t2) of
                                          None \<Rightarrow> None
                                        | Some (kvs, r3) \<Rightarrow> Some ((k, v) # kvs, r3))
                                     else if hd t2 = CHR ''}'' then Some ([(k, v)], tl t2)
                                     else None)))))"

declare parseValue.simps [simp del] parseElements.simps [simp del] parseMembers.simps [simp del]

definition JSON_parse :: "string \<Rightarrow> int json option" where
  "JSON_parse text =
     (case parseValue (Suc (length text)) text of
        None \<Rightarrow> None
      | Some (v, r) \<Rightarrow> if skipWs r = [] then Some v else None)"

subsection \<open>Export\<close>








section \<open>Runs used below\<close>

text \<open>A stored item list of three short questions, and the component mounted on it.\<close>

definition demoItems :: "item list" where
  "demoItems =
     [\<lparr>item_id = 1, topic = ''A'', question = ''Q1'', yesSample = ''Y1'', noSample = ''N1''\<rparr>,
      \<lparr>item_id = 2, topic = ''A'', question = ''Q2'', yesSample = ''Y2'', noSample = ''N2''\<rparr>,
      \<lparr>item_id = 3, topic = ''B'', question = ''Q3'', yesSample = ''Y3'', noSample = ''N3''\<rparr>]"

definition demoWorld :: "nat list \<Rightarrow> world" where
  "demoWorld rnd = mount demoItems False False rnd"

text \<open>
  The user starts a question with speech output on, switches speech output off and starts the
  question again (recognition starts at once), answers "Yes."; the question's utterance ends,
  recognition starts again 200 ms later, and the user answers "No.".
\<close>

definition earlyRevealRun :: "event list" where
  "earlyRevealRun =
     [ClickAsk, SetUseTTS False, ClickAsk, RecResult 0 [(''Yes.'', True)], UtteranceEnds,
      TimerFires 1, RecResult 0 [(''No.'', True)]]"

text \<open>
  With a practice time of three seconds: the countdown of a question expires and its answer is
  being spoken; the user switches speech output off, starts the question again (which arms
  countdown 2), and switches speech output on; the answer's utterance ends and \<^verbatim>\<open>goNext\<close>
  advances to another question, which is then asked (timeout 3) and is being spoken;
  countdown 2 fires.
\<close>

definition staleCountdownRun :: "event list" where
  "staleCountdownRun =
     [SetPracticeSec 3, ClickAsk, UtteranceEnds, TimerFires 0, TimerFires 1, SetUseTTS False,
      ClickAsk, SetUseTTS True, UtteranceEnds, TimerFires 3, TimerFires 2]"

text \<open>
  A session over all three items is at its first question and the answer is being spoken; the
  user selects topic B (which discards the session) and starts a session there (one item); the
  answer's utterance ends and the \<^verbatim>\<open>goNext\<close> of the old render advances the cursor.
\<close>

definition staleAdvanceRun :: "event list" where
  "staleAdvanceRun =
     [ClickStartSession (\<lambda>ids. ids), ClickAsk, UtteranceEnds, TimerFires 0, TimerFires 1,
      SelectTopic ''B'', ClickStartSession (\<lambda>ids. ids), UtteranceEnds]"

text \<open>A pool of twelve items of one topic.\<close>

definition twelveItems :: "item list" where
  "twelveItems =
     map (\<lambda>i. \<lparr>item_id = i, topic = ''T'', question = ''Q'', yesSample = ''Y'', noSample = ''N''\<rparr>)
       [1, 2, 3, 4, 5, 6, 7, 8, 9, 10, 11, 12]"

subsection \<open>An invariant of the armed timeouts\<close>

text \<open>
  Handles are fresh and distinct, and every armed countdown is the one that
  \<^verbatim>\<open>practiceTimerRef\<close> holds.
\<close>

definition timersOk :: "world \<Rightarrow> bool" where
  "timersOk w =
     ((\<forall>t\<in>set (timers w). fst t < nextTimerId w)
      \<and> distinct (map fst (timers w))
      \<and> (\<forall>t\<in>set (timers w). isCountdown t \<longrightarrow> practiceTimerRef w = Some (fst t)))"

definition sameTimers :: "world \<Rightarrow> world \<Rightarrow> bool" where
  "sameTimers w w' =
     (timers w' = timers w \<and> nextTimerId w' = nextTimerId w
      \<and> practiceTimerRef w' = practiceTimerRef w)"

section \<open>Properties of the classifier\<close>

lemma startsWith_prefix: "startsWith t w = prefix w t"
  by (induction t w rule: startsWith.induct) auto

lemma includes_str_sublist: "includes_str t s = sublist s t"
proof (induction t)
  case Nil
  show ?case by simp
next
  case (Cons x t)
  then show ?case by (simp add: sublist_Cons_right startsWith_prefix)
qed

lemma phraseMatches_spec: "phraseMatches t w = spec_matches t w"
  by (auto simp: phraseMatches_def spec_matches_def startsWith_prefix includes_str_sublist)

text \<open>
  Four of the fourteen self-tests fail: three because an affirmative phrase is a prefix of the
  transcript, one because a phrase at the very end of the transcript has no space after it.
\<close>

lemma selfTestFailures_eval:
  "selfTestFailures =
     [(''I don't know'', Some No), (''Absolutely yes'', Some Yes), (''I will not.'', Some No),
      (''It isn't.'', Some No)]"
  by code_simp

text \<open>
  Claim C3. Whenever some affirmative phrase and some negative phrase both match the
  normalized transcript (equal to it, a prefix of it, or inside it between two spaces),
  \<^verbatim>\<open>parseYesNo\<close> answers \<^verbatim>\<open>"yes"\<close>: the affirmative list is tried first.
\<close>

theorem parseYesNo_affirmative_wins:
  assumes "list_ex (spec_matches (trim (toLowerCase tr))) yesWords"
    and "list_ex (spec_matches (trim (toLowerCase tr))) noWords"
  shows "parseYesNo (Some tr) = Some Yes"
proof -
  have "tr \<noteq> []"
  proof
    assume "tr = []"
    with assms(1) show False
      by (simp add: trim_def toLowerCase_def yesWords_def spec_matches_def)
  qed
  moreover have "list_ex (phraseMatches (trim (toLowerCase tr))) yesWords"
    using assms(1) by (simp add: list_ex_iff phraseMatches_spec)
  ultimately show ?thesis
    by (simp add: parseYesNo_def)
qed

theorem parseYesNo_affirmative_wins_witness:
  "list_ex (spec_matches (trim (toLowerCase ''I will not.''))) yesWords
   \<and> list_ex (spec_matches (trim (toLowerCase ''I will not.''))) noWords
   \<and> parseYesNo (Some ''I will not.'') = Some Yes"
proof -
  have y: "list_ex (spec_matches (trim (toLowerCase ''I will not.''))) yesWords"
    by code_simp
  have n: "list_ex (spec_matches (trim (toLowerCase ''I will not.''))) noWords"
    by code_simp
  show ?thesis
    using y n parseYesNo_affirmative_wins [OF y n] by simp
qed

text \<open>
  Claim C4. The claim says that a phrase matches only as a whole word or phrase, never inside
  an unrelated word. On the transcript "I don't know" the affirmative phrase "i do" matches
  through \<^verbatim>\<open>startsWith\<close>, although it ends inside the word "don't"; the transcript is
  classified \<^verbatim>\<open>"yes"\<close>, where the self-test table of the source expects \<^verbatim>\<open>"no"\<close>.
\<close>

theorem phraseMatches_inside_word:
  "phraseMatches (trim (toLowerCase ''I don't know'')) ''i do''
   \<and> \<not> spec_wholeWord (trim (toLowerCase ''I don't know'')) ''i do''
   \<and> parseYesNo (Some ''I don't know'') = Some Yes
   \<and> List.member selfTestCases (''I don't know'', Some No)"
  by code_simp

text \<open>
  Claim C8. \<^verbatim>\<open>parseYesNo\<close> is a function of its argument alone (it reads and writes no
  state), and it answers \<^verbatim>\<open>null\<close> for a missing transcript, for the empty string, for
  "maybe", and for every transcript that no phrase of either list matches.
\<close>

theorem parseYesNo_unknown:
  "parseYesNo None = None
   \<and> parseYesNo (Some '''') = None
   \<and> parseYesNo (Some ''maybe'') = None
   \<and> (\<forall>tr. \<not> list_ex (spec_matches (trim (toLowerCase tr))) (yesWords @ noWords)
          \<longrightarrow> parseYesNo (Some tr) = None)"
proof -
  have a: "parseYesNo None = None"
    by (simp add: parseYesNo_def)
  have b: "parseYesNo (Some '''') = None"
    by (simp add: parseYesNo_def)
  have c: "parseYesNo (Some ''maybe'') = None"
    by code_simp
  have d: "parseYesNo (Some tr) = None"
    if "\<not> list_ex (spec_matches (trim (toLowerCase tr))) (yesWords @ noWords)" for tr
    using that by (simp add: parseYesNo_def list_ex_iff phraseMatches_spec)
  from a b c d show ?thesis by blast
qed

theorem parseYesNo_unknown_witness:
  "\<not> list_ex (spec_matches (trim (toLowerCase ''Maybe later''))) (yesWords @ noWords)
   \<and> parseYesNo (Some ''Maybe later'') = None"
proof -
  have h: "\<not> list_ex (spec_matches (trim (toLowerCase ''Maybe later''))) (yesWords @ noWords)"
    by code_simp
  show ?thesis
    using h parseYesNo_unknown by blast
qed

section \<open>Properties of the timers\<close>

lemma sameTimers_refl: "sameTimers w w"
  by (simp add: sameTimers_def)

lemma sameTimers_trans: "sameTimers w w' \<Longrightarrow> sameTimers w' w'' \<Longrightarrow> sameTimers w w''"
  by (simp add: sameTimers_def)

lemma sameTimers_ok: "sameTimers w w' \<Longrightarrow> timersOk w \<Longrightarrow> timersOk w'"
  by (simp add: sameTimers_def timersOk_def)

lemma sameTimers_state: "sameTimers w (w\<lparr>state := s\<rparr>)"
  by (simp add: sameTimers_def)

lemmas setter_defs = setListening_def setPhase_def setNeeded_def setRecognized_def
  setSessionSet_def setSessionCursor_def setCurrentIndex_def recStop_def

lemma sameTimers_resetNeeded: "sameTimers w (resetNeeded w)"
  by (simp add: sameTimers_def resetNeeded_def setter_defs)

lemma sameTimers_startRecognition: "sameTimers w (startRecognition w)"
  by (simp add: sameTimers_def startRecognition_def setter_defs Let_def)

lemma sameTimers_speak: "sameTimers w (speak text cb w)"
  by (simp add: sameTimers_def speak_def)

lemma sameTimers_randomIndex: "sameTimers w (snd (randomIndex n w))"
  by (simp add: sameTimers_def randomIndex_def split: list.splits)

lemma sameTimers_redraw: "sameTimers w (snd (redraw view cid idx guard w))"
proof (induction view cid idx guard w rule: redraw.induct)
  case (1 view cid idx guard w)
  show ?case
  proof (cases "(case nth_opt view idx of None \<Rightarrow> False | Some it \<Rightarrow> Some (item_id it) = cid) \<and> guard < 10")
    case True
    obtain i' w' where r: "randomIndex (length view) w = (i', w')"
      by (cases "randomIndex (length view) w")
    have a: "sameTimers w w'"
      using sameTimers_randomIndex [of w "length view"] r by simp
    have b: "sameTimers w' (snd (redraw view cid i' (Suc guard) w'))"
      using "1.IH" [OF True r [symmetric] refl] .
    have "redraw view cid idx guard w = redraw view cid i' (Suc guard) w'"
      using True r by (subst redraw.simps) simp
    with a b show ?thesis
      by (simp add: sameTimers_trans)
  next
    case False
    then have "redraw view cid idx guard w = (idx, w)"
      by (subst redraw.simps) auto
    then show ?thesis by (simp add: sameTimers_refl)
  qed
qed

lemma sameTimers_pick:
  "sameTimers w
     (case randomIndex n w of
        (idx, wa) \<Rightarrow>
          (case (if 1 < length v then redraw v c idx 0 wa else (idx, wa)) of
             (idx', wb) \<Rightarrow> setCurrentIndex idx' wb))"
proof -
  obtain idx wa where r: "randomIndex n w = (idx, wa)"
    by (cases "randomIndex n w")
  obtain idx' wb where p: "(if 1 < length v then redraw v c idx 0 wa else (idx, wa)) = (idx', wb)"
    by (cases "if 1 < length v then redraw v c idx 0 wa else (idx, wa)")
  have a: "sameTimers w wa"
    using sameTimers_randomIndex [of w n] r by simp
  have b: "sameTimers wa wb"
  proof (cases "1 < length v")
    case True
    with p have "redraw v c idx 0 wa = (idx', wb)" by simp
    then show ?thesis
      using sameTimers_redraw [of wa v c idx 0] by simp
  next
    case False
    with p show ?thesis by (simp add: sameTimers_refl)
  qed
  have c: "sameTimers wb (setCurrentIndex idx' wb)"
    by (simp add: setCurrentIndex_def sameTimers_state)
  show ?thesis
    using r p sameTimers_trans [OF sameTimers_trans [OF a b] c] by simp
qed

lemma sameTimers_goNext: "sameTimers w (goNext h w)"
proof -
  have fin: "sameTimers w ((resetNeeded w1)\<lparr>autoAdvanceRef := True\<rparr>)" if "sameTimers w w1" for w1
    using that sameTimers_resetNeeded [of w1] by (simp add: sameTimers_def)
  show ?thesis
  proof (cases "sessionActive h")
    case True
    then show ?thesis
      by (simp add: goNext_def Let_def sameTimers_def resetNeeded_def setter_defs)
  next
    case False
    show ?thesis
    proof (cases "viewItems h = []")
      case True
      with False show ?thesis by (simp add: goNext_def sameTimers_refl)
    next
      case ne: False
      show ?thesis
      proof (cases "randomMode h")
        case True
        with False ne show ?thesis
          using fin [OF sameTimers_pick [where w = w and n = "length (viewItems h)" and v = "viewItems h" and c = "map_option item_id (current h)"]]
          by (simp add: goNext_def Let_def)
      next
        case nr: False
        have "sameTimers w (setCurrentIndex k w)" for k
          by (simp add: setCurrentIndex_def sameTimers_state)
        from fin [OF this] False ne nr show ?thesis
          by (simp add: goNext_def Let_def)
      qed
    qed
  qed
qed

lemma sameTimers_reveal: "sameTimers w (reveal h w)"
proof -
  have a: "sameTimers w (recStop (setPhase Reveal w))"
    by (simp add: sameTimers_def setter_defs)
  show ?thesis
    using sameTimers_trans [OF a sameTimers_speak] sameTimers_trans [OF a sameTimers_goNext]
    by (simp add: reveal_def Let_def)
qed

lemma sameTimers_buildSession: "sameTimers w (buildSession sr cnt h w)"
  by (simp add: buildSession_def Let_def sameTimers_def resetNeeded_def setter_defs)

lemma timersOk_clearTimeout: "timersOk w \<Longrightarrow> timersOk (clearTimeout x w)"
  by (auto simp: timersOk_def clearTimeout_def distinct_map_filter split: option.splits)

lemma timersOk_setTimeout:
  "timersOk w \<Longrightarrow> \<not> isCountdown (nextTimerId w, ms, cb) \<Longrightarrow> timersOk (snd (setTimeout cb ms w))"
  by (fastforce simp: timersOk_def setTimeout_def)

lemma countdown_cleared:
  "timersOk w \<Longrightarrow> countdownTimers (clearTimeout (practiceTimerRef w) w) = []"
  by (auto simp: timersOk_def clearTimeout_def countdownTimers_def filter_empty_conv
           split: option.splits)

lemma timersOk_armPracticeTimer:
  assumes "timersOk w"
  shows "timersOk (armPracticeTimer h w)"
proof -
  let ?w1 = "clearTimeout (practiceTimerRef w) w"
  have ok1: "timersOk ?w1"
    using assms by (rule timersOk_clearTimeout)
  have none: "\<forall>t\<in>set (timers ?w1). \<not> isCountdown t"
    using countdown_cleared [OF assms] by (simp add: countdownTimers_def filter_empty_conv)
  have nx: "nextTimerId ?w1 = nextTimerId w"
    by (simp add: clearTimeout_def split: option.splits)
  show ?thesis
    using ok1 none
    by (fastforce simp: armPracticeTimer_def Let_def setTimeout_def timersOk_def)
qed

lemma countdown_armPracticeTimer:
  assumes "timersOk w"
  shows "countdownTimers (armPracticeTimer h w) = [(nextTimerId w, practiceSec h * 1000, RevealCb h)]"
proof -
  let ?w1 = "clearTimeout (practiceTimerRef w) w"
  have none: "filter isCountdown (timers ?w1) = []"
    using countdown_cleared [OF assms] by (simp add: countdownTimers_def)
  have nx: "nextTimerId ?w1 = nextTimerId w"
    by (simp add: clearTimeout_def split: option.splits)
  show ?thesis
    using none nx
    by (simp add: armPracticeTimer_def Let_def setTimeout_def countdownTimers_def isCountdown_def)
qed

lemma timersOk_ask: "timersOk w \<Longrightarrow> timersOk (ask h w)"
proof -
  assume ok: "timersOk w"
  have s: "sameTimers w (setPhase Practice (resetNeeded w))"
    using sameTimers_resetNeeded [of w] by (simp add: sameTimers_def setter_defs)
  have a: "timersOk (speak q cb (setPhase Practice (resetNeeded w)))" for q cb
    using sameTimers_ok [OF sameTimers_trans [OF s sameTimers_speak] ok] .
  have b: "timersOk (armPracticeTimer h (startRecognition (setPhase Practice (resetNeeded w))))"
    using timersOk_armPracticeTimer [OF sameTimers_ok [OF sameTimers_trans [OF s sameTimers_startRecognition] ok]] .
  show ?thesis
    using a b by (simp add: ask_def Let_def)
qed

lemma timersOk_askSpoken: "timersOk w \<Longrightarrow> timersOk (askSpoken h w)"
  unfolding askSpoken_def
  by (rule timersOk_armPracticeTimer, rule timersOk_setTimeout) (simp_all add: isCountdown_def)

lemma timersOk_fastReveal: "timersOk w \<Longrightarrow> timersOk (fastReveal h w)"
  using sameTimers_ok [OF sameTimers_reveal timersOk_clearTimeout]
  by (simp add: fastReveal_def)

lemma timersOk_onresult: "timersOk w \<Longrightarrow> timersOk (onresult h ri rs w)"
proof -
  assume ok: "timersOk w"
  have s: "timersOk (setNeeded n (setRecognized t w))" for n t
    using ok by (simp add: timersOk_def setter_defs)
  have s': "timersOk (setRecognized t w)" for t
    using ok by (simp add: timersOk_def setter_defs)
  show ?thesis
    using s s' timersOk_fastReveal [OF s]
    by (simp add: onresult_def Let_def split: option.splits)
qed

lemma timersOk_runSpeechCallback: "timersOk w \<Longrightarrow> timersOk (runSpeechCallback cb w)"
  using sameTimers_ok [OF sameTimers_goNext]
  by (auto simp: runSpeechCallback_def timersOk_askSpoken split: option.splits speech_callback.splits)

lemma timersOk_runCallback: "timersOk w \<Longrightarrow> timersOk (runCallback cb w)"
  using sameTimers_ok [OF sameTimers_reveal] sameTimers_ok [OF sameTimers_startRecognition]
  by (auto simp: runCallback_def timersOk_ask split: callback.splits)

lemma timersOk_fields:
  "timers w' = timers w \<Longrightarrow> nextTimerId w' = nextTimerId w \<Longrightarrow>
   practiceTimerRef w' = practiceTimerRef w \<Longrightarrow> timersOk w \<Longrightarrow> timersOk w'"
  by (simp add: timersOk_def)

lemma timersOk_remove: "timersOk w \<Longrightarrow> timersOk (w\<lparr>timers := filter (\<lambda>t. fst t \<noteq> i) (timers w)\<rparr>)"
  by (auto simp: timersOk_def distinct_map_filter)

lemma timersOk_handle: "timersOk w \<Longrightarrow> timersOk (handle e w)"
proof (cases e)
  case ClickAsk
  assume "timersOk w"
  with ClickAsk show ?thesis by (simp add: handle_def timersOk_ask)
next
  case (ClickStartSession sr)
  assume "timersOk w"
  with ClickStartSession show ?thesis
    using sameTimers_ok [OF sameTimers_buildSession] by (simp add: handle_def)
next
  case (TimerFires i)
  assume ok: "timersOk w"
  show ?thesis
    using TimerFires timersOk_runCallback [OF timersOk_remove [OF ok]] ok
    by (simp add: handle_def split: option.splits)
next
  case UtteranceEnds
  assume ok: "timersOk w"
  have "timersOk (w\<lparr>speaking := None\<rparr>)"
    using ok by (simp add: timersOk_def)
  from timersOk_runSpeechCallback [OF this] UtteranceEnds ok show ?thesis
    by (simp add: handle_def split: option.splits)
next
  case CancelledUtteranceEnds
  assume ok: "timersOk w"
  have "timersOk (w\<lparr>cancelled := r\<rparr>)" for r
    using ok by (simp add: timersOk_def)
  from timersOk_runSpeechCallback [OF this] CancelledUtteranceEnds ok show ?thesis
    by (simp add: handle_def split: list.splits)
next
  case (RecResult ri rs)
  assume ok: "timersOk w"
  have "timersOk (w'\<lparr>recActive := False\<rparr>)" if "timersOk w'" for w'
    using that by (simp add: timersOk_def)
  with timersOk_onresult [OF ok] RecResult ok show ?thesis
    by (simp add: handle_def Let_def)
next
  case ClickTestPlay
  assume "timersOk w"
  with ClickTestPlay show ?thesis
    using sameTimers_ok [OF sameTimers_speak] by (simp add: handle_def)
qed (simp_all add: handle_def timersOk_def setter_defs)

lemma timersOk_step: "timersOk w \<Longrightarrow> timersOk (step e w)"
proof -
  assume ok: "timersOk w"
  have h: "timersOk (handle e w)"
    using ok by (rule timersOk_handle)
  have "timersOk ((handle e w)\<lparr>autoAdvanceRef := False\<rparr>)"
    using h by (simp add: timersOk_def)
  from timersOk_setTimeout [OF this] h show ?thesis
    by (simp add: step_def autoAdvanceEffect_def isCountdown_def)
qed

lemma timersOk_mount: "timersOk (mount its a b rnd)"
  by (simp add: timersOk_def mount_def)

lemma run_Cons: "run (e # es) w = run es (step e w)"
  by (simp add: run_def)

lemma timersOk_run: "timersOk w \<Longrightarrow> timersOk (run es w)"
proof (induction es arbitrary: w)
  case Nil
  then show ?case by (simp add: run_def)
next
  case (Cons e es)
  then show ?case by (simp add: run_Cons timersOk_step)
qed

lemma timersOk_at_most_one: "timersOk w \<Longrightarrow> length (countdownTimers w) \<le> 1"
proof -
  assume ok: "timersOk w"
  let ?xs = "map fst (countdownTimers w)"
  have d: "distinct ?xs"
    using ok by (simp add: timersOk_def countdownTimers_def distinct_map_filter)
  have "set ?xs \<subseteq> {the (practiceTimerRef w)}"
    using ok by (auto simp: timersOk_def countdownTimers_def)
  then have "card (set ?xs) \<le> card {the (practiceTimerRef w)}"
    by (intro card_mono) simp_all
  then have "card (set ?xs) \<le> 1"
    by simp
  moreover have "card (set ?xs) = length ?xs"
    using d by (rule distinct_card)
  ultimately show ?thesis
    by simp
qed

section \<open>Properties of the session sequencer and of the practice flow\<close>

lemmas ctl_defs = run_def step_def handle_def autoAdvanceEffect_def mount_def initialHooks_def
  ask_def askSpoken_def armPracticeTimer_def reveal_def fastReveal_def goNext_def onresult_def
  buildSession_def runCallback_def runSpeechCallback_def speak_def startRecognition_def
  resetNeeded_def setTimeout_def clearTimeout_def setter_defs randomIndex_def
  current_def viewItems_def pool_def topicOf_def sessionActive_def firstOf_def nth_opt_def
  uniqueIds_def countdownTimers_def countdownQuestions_def isCountdown_def cursorValid_def
  redraw.simps Let_def demoItems_def demoWorld_def

lemma parseYesNo_Yes: "parseYesNo (Some ''Yes.'') = Some Yes"
  by code_simp

lemma parseYesNo_No: "parseYesNo (Some ''No.'') = Some No"
  by code_simp

lemma state_randomIndex: "state (snd (randomIndex n w)) = state w"
  by (simp add: randomIndex_def split: list.splits)

lemma state_redraw: "state (snd (redraw view cid idx guard w)) = state w"
proof (induction view cid idx guard w rule: redraw.induct)
  case (1 view cid idx guard w)
  show ?case
  proof (cases "(case nth_opt view idx of None \<Rightarrow> False | Some it \<Rightarrow> Some (item_id it) = cid) \<and> guard < 10")
    case True
    obtain i' w' where r: "randomIndex (length view) w = (i', w')"
      by (cases "randomIndex (length view) w")
    have a: "state w' = state w"
      using state_randomIndex [of "length view" w] r by simp
    have b: "state (snd (redraw view cid i' (Suc guard) w')) = state w'"
      using "1.IH" [OF True r [symmetric] refl] .
    have "redraw view cid idx guard w = redraw view cid i' (Suc guard) w'"
      using True r by (subst redraw.simps) simp
    with a b show ?thesis by simp
  next
    case False
    then have "redraw view cid idx guard w = (idx, w)"
      by (subst redraw.simps) auto
    then show ?thesis by simp
  qed
qed

text \<open>\<^verbatim>\<open>goNext\<close> leaves the phase as it is or, at the end of a session, sets it to \<open>idle\<close>.\<close>

lemma phase_goNext:
  "phase (state (goNext h w)) = phase (state w) \<or> phase (state (goNext h w)) = Idle"
proof (cases "sessionActive h")
  case True
  then show ?thesis
    by (simp add: goNext_def Let_def resetNeeded_def setter_defs)
next
  case False
  show ?thesis
  proof (cases "viewItems h = []")
    case True
    with False show ?thesis by (simp add: goNext_def)
  next
    case ne: False
    obtain idx wa where r: "randomIndex (length (viewItems h)) w = (idx, wa)"
      by (cases "randomIndex (length (viewItems h)) w")
    obtain idx' wb where p:
      "(if 1 < length (viewItems h)
        then redraw (viewItems h) (map_option item_id (current h)) idx 0 wa else (idx, wa)) = (idx', wb)"
      by (cases "if 1 < length (viewItems h)
        then redraw (viewItems h) (map_option item_id (current h)) idx 0 wa else (idx, wa)")
    have a: "state wa = state w"
      using state_randomIndex [of "length (viewItems h)" w] r by simp
    have b: "state wb = state wa"
      using p state_redraw [of "viewItems h" "map_option item_id (current h)" idx 0 wa]
      by (auto split: if_splits)
    from False ne r p a b show ?thesis
      by (simp add: goNext_def Let_def resetNeeded_def setter_defs)
  qed
qed

lemma uniqueIds_distinct: "distinct (uniqueIds xs)"
  by (simp add: uniqueIds_def)

lemma uniqueIds_set: "set (uniqueIds xs) = set xs"
  by (simp add: uniqueIds_def)

lemma uniqueIds_length: "length (uniqueIds xs) = card (set xs)"
  using distinct_card [OF uniqueIds_distinct, of xs] by (simp add: uniqueIds_set)

lemma sessionSet_buildSession:
  "sessionSet (state (buildSession sortRandom cnt h w)) =
     Some (take (min cnt (length (sortRandom (uniqueIds (map item_id (pool h))))))
            (sortRandom (uniqueIds (map item_id (pool h)))))"
  by (simp add: buildSession_def Let_def resetNeeded_def setter_defs)

text \<open>
  Claim C5. \<^verbatim>\<open>buildSession(count)\<close> stores as session \<open>min count n\<close> ids, where \<open>n\<close> is the
  number of distinct ids of the topic-filtered pool; the ids are distinct and are ids of the
  pool. With count 10 these are exactly 10 ids when the pool has at least 10 distinct ids, and
  exactly 4 when it has 4. The engine's random sort is assumed to return a permutation of its
  argument.
\<close>

theorem buildSession_draws_distinct_pool_ids:
  assumes "mset (sortRandom (uniqueIds (map item_id (pool h)))) = mset (uniqueIds (map item_id (pool h)))"
  shows "\<exists>ids. sessionSet (state (buildSession sortRandom cnt h w)) = Some ids
           \<and> sessionCursor (state (buildSession sortRandom cnt h w)) = 0
           \<and> length ids = min cnt (card (set (map item_id (pool h))))
           \<and> distinct ids
           \<and> set ids \<subseteq> set (map item_id (pool h))
           \<and> (cnt = 10 \<and> 10 \<le> card (set (map item_id (pool h))) \<longrightarrow> length ids = 10)
           \<and> (cnt = 10 \<and> card (set (map item_id (pool h))) = 4 \<longrightarrow> length ids = 4)"
proof -
  let ?u = "uniqueIds (map item_id (pool h))"
  let ?ids = "take (min cnt (length (sortRandom ?u))) (sortRandom ?u)"
  have len: "length (sortRandom ?u) = card (set (map item_id (pool h)))"
    using mset_eq_length [OF assms] by (simp add: uniqueIds_length)
  have dist: "distinct (sortRandom ?u)"
    using mset_eq_imp_distinct_iff [OF assms] by (simp add: uniqueIds_distinct)
  have sub: "set (sortRandom ?u) = set (map item_id (pool h))"
    using mset_eq_setD [OF assms] by (simp add: uniqueIds_set)
  have 1: "sessionSet (state (buildSession sortRandom cnt h w)) = Some ?ids"
    by (rule sessionSet_buildSession)
  have 2: "sessionCursor (state (buildSession sortRandom cnt h w)) = 0"
    by (simp add: buildSession_def Let_def resetNeeded_def setter_defs)
  have 3: "length ?ids = min cnt (card (set (map item_id (pool h))))"
    using len by simp
  have 4: "distinct ?ids"
    using dist by simp
  have 5: "set ?ids \<subseteq> set (map item_id (pool h))"
    using sub set_take_subset [of "min cnt (length (sortRandom ?u))" "sortRandom ?u"] by simp
  have 6: "cnt = 10 \<and> 10 \<le> card (set (map item_id (pool h))) \<longrightarrow> length ?ids = 10"
    using len by auto
  have 7: "cnt = 10 \<and> card (set (map item_id (pool h))) = 4 \<longrightarrow> length ?ids = 4"
    using len by auto
  from 1 2 3 4 5 6 7 show ?thesis by blast
qed

theorem buildSession_draws_distinct_pool_ids_witness:
  "mset (rev (uniqueIds (map item_id (pool (initialHooks twelveItems)))))
     = mset (uniqueIds (map item_id (pool (initialHooks twelveItems))))
   \<and> 10 \<le> card (set (map item_id (pool (initialHooks twelveItems))))
   \<and> (\<exists>ids. sessionSet (state (buildSession rev 10 (initialHooks twelveItems)
                 (mount twelveItems False False []))) = Some ids
          \<and> length ids = 10 \<and> distinct ids
          \<and> set ids \<subseteq> set (map item_id (pool (initialHooks twelveItems))))
   \<and> mset (rev (uniqueIds (map item_id (pool (initialHooks (take 4 twelveItems))))))
     = mset (uniqueIds (map item_id (pool (initialHooks (take 4 twelveItems)))))
   \<and> card (set (map item_id (pool (initialHooks (take 4 twelveItems))))) = 4
   \<and> (\<exists>ids. sessionSet (state (buildSession rev 10 (initialHooks (take 4 twelveItems))
                 (mount (take 4 twelveItems) False False []))) = Some ids
          \<and> length ids = 4 \<and> distinct ids
          \<and> set ids \<subseteq> set (map item_id (pool (initialHooks (take 4 twelveItems)))))"
proof -
  have p: "mset (rev (uniqueIds (map item_id (pool (initialHooks twelveItems)))))
             = mset (uniqueIds (map item_id (pool (initialHooks twelveItems))))"
    by simp
  have ids: "map item_id (pool (initialHooks twelveItems)) = [1, 2, 3, 4, 5, 6, 7, 8, 9, 10, 11, 12]"
    by (simp add: pool_def initialHooks_def twelveItems_def)
  have c: "10 \<le> card (set (map item_id (pool (initialHooks twelveItems))))"
    unfolding ids by (subst distinct_card) simp_all
  have p4: "mset (rev (uniqueIds (map item_id (pool (initialHooks (take 4 twelveItems))))))
             = mset (uniqueIds (map item_id (pool (initialHooks (take 4 twelveItems)))))"
    by simp
  have ids4: "map item_id (pool (initialHooks (take 4 twelveItems))) = [1, 2, 3, 4]"
    by (simp add: pool_def initialHooks_def twelveItems_def)
  have c4: "card (set (map item_id (pool (initialHooks (take 4 twelveItems))))) = 4"
    unfolding ids4 by (subst distinct_card) simp_all
  have a: "\<exists>ids. sessionSet (state (buildSession rev 10 (initialHooks twelveItems)
                 (mount twelveItems False False []))) = Some ids
          \<and> length ids = 10 \<and> distinct ids
          \<and> set ids \<subseteq> set (map item_id (pool (initialHooks twelveItems)))"
    using p c
      buildSession_draws_distinct_pool_ids [where sortRandom = rev and h = "initialHooks twelveItems"
        and cnt = 10 and w = "mount twelveItems False False []"]
    by auto
  have b: "\<exists>ids. sessionSet (state (buildSession rev 10 (initialHooks (take 4 twelveItems))
                 (mount (take 4 twelveItems) False False []))) = Some ids
          \<and> length ids = 4 \<and> distinct ids
          \<and> set ids \<subseteq> set (map item_id (pool (initialHooks (take 4 twelveItems))))"
    using p4 c4
      buildSession_draws_distinct_pool_ids [where sortRandom = rev
        and h = "initialHooks (take 4 twelveItems)"
        and cnt = 10 and w = "mount (take 4 twelveItems) False False []"]
    by auto
  from p c a p4 c4 b show ?thesis
    by blast
qed

lemma state_armPracticeTimer: "state (armPracticeTimer h w) = state w"
  by (simp add: armPracticeTimer_def Let_def setTimeout_def clearTimeout_def split: option.splits)

lemma state_speak: "state (speak q cb w) = state w"
  by (simp add: speak_def)

lemma state_askSpoken: "state (askSpoken h w) = state w"
  by (simp add: askSpoken_def state_armPracticeTimer setTimeout_def)

lemma state_autoAdvanceEffect: "state (autoAdvanceEffect p w) = state w"
  by (simp add: autoAdvanceEffect_def setTimeout_def)

lemma state_ask:
  "needed (state (ask h w)) = \<lparr>yes = True, no = True\<rparr> \<and> phase (state (ask h w)) = Practice"
  by (simp add: ask_def Let_def state_armPracticeTimer state_speak startRecognition_def
      resetNeeded_def setter_defs)

lemma phase_reveal: "phase (state (reveal h w)) \<noteq> Practice"
proof (cases "useTTS h")
  case True
  then show ?thesis
    by (simp add: reveal_def Let_def state_speak setter_defs)
next
  case False
  have "phase (state (recStop (setPhase Reveal w))) = Reveal"
    by (simp add: setter_defs)
  with phase_goNext [of h "recStop (setPhase Reveal w)"] False show ?thesis
    by (auto simp: reveal_def Let_def)
qed


lemma phase_fastReveal:
  "phase (state (fastReveal h w)) = Practice \<Longrightarrow> phase (state w) = Practice"
  using phase_reveal [of h "clearTimeout (practiceTimerRef w) w"]
  by (cases "phase h = Practice") (simp_all add: fastReveal_def)

lemma phase_onresult:
  assumes "phase (state (onresult h ri rs w)) = Practice"
  shows "phase (state w) = Practice"
proof -
  let ?w1 = "setRecognized (concat (map fst (drop ri rs))) w"
  have p1: "phase (state ?w1) = phase (state w)"
    by (simp add: setter_defs)
  have p2: "phase (state (setNeeded n ?w1)) = phase (state w)" for n
    by (simp add: setter_defs)
  show ?thesis
  proof (cases "rs \<noteq> [] \<and> snd (last rs)")
    case False
    then have "onresult h ri rs w = ?w1"
      by (cases "rs = []") (simp_all add: onresult_def Let_def)
    with assms p1 show ?thesis
      by simp
  next
    case True
    show ?thesis
    proof (cases "parseYesNo (Some (concat (map fst (drop ri rs))))")
      case None
      with True assms p1 show ?thesis
        by (simp add: onresult_def Let_def)
    next
      case (Some yn)
      obtain n where
        "onresult h ri rs w = (if \<not> yes n \<and> \<not> no n then fastReveal h (setNeeded n ?w1) else setNeeded n ?w1)"
        using True Some by (simp add: onresult_def Let_def)
      with assms p2 [of n] phase_fastReveal [of h "setNeeded n ?w1"] show ?thesis
        by (auto split: if_splits)
    qed
  qed
qed


lemma phase_runSpeechCallback:
  "phase (state (runSpeechCallback cb w)) = Practice \<Longrightarrow> phase (state w) = Practice"
proof (cases cb)
  case None
  assume "phase (state (runSpeechCallback cb w)) = Practice"
  with None show ?thesis by (simp add: runSpeechCallback_def)
next
  case (Some c)
  assume a: "phase (state (runSpeechCallback cb w)) = Practice"
  show ?thesis
  proof (cases c)
    case (AskSpoken h)
    with Some a show ?thesis by (simp add: runSpeechCallback_def state_askSpoken)
  next
    case (AnswerSpoken h)
    with Some a phase_goNext [of h w] show ?thesis by (auto simp: runSpeechCallback_def)
  qed
qed

lemma entering_practice_runCallback:
  "phase (state (runCallback cb w)) = Practice \<Longrightarrow> phase (state w) \<noteq> Practice \<Longrightarrow>
   needed (state (runCallback cb w)) = \<lparr>yes = True, no = True\<rparr>"
proof (cases cb)
  case (RevealCb h)
  assume "phase (state (runCallback cb w)) = Practice"
  with RevealCb phase_reveal [of h w] show ?thesis by (simp add: runCallback_def)
next
  case StartRecognitionCb
  assume "phase (state (runCallback cb w)) = Practice" "phase (state w) \<noteq> Practice"
  with StartRecognitionCb show ?thesis
    by (simp add: runCallback_def startRecognition_def setter_defs Let_def split: if_splits)
next
  case (AskCb h)
  then show ?thesis by (simp add: runCallback_def state_ask)
qed

lemma entering_practice_handle:
  assumes "phase (state (handle e w)) = Practice" and "phase (state w) \<noteq> Practice"
  shows "needed (state (handle e w)) = \<lparr>yes = True, no = True\<rparr>"
proof (cases e)
  case ClickAsk
  with assms show ?thesis
    by (cases "current (state w) = None") (auto simp: handle_def state_ask)
next
  case (ClickStartSession sr)
  with assms show ?thesis
    by (simp add: handle_def buildSession_def Let_def resetNeeded_def setter_defs split: if_splits)
next
  case (SelectTopic t)
  with assms show ?thesis by (simp add: handle_def setter_defs)
next
  case (SetPracticeSec v)
  with assms show ?thesis by (simp add: handle_def)
next
  case (SetUseTTS b)
  with assms show ?thesis by (simp add: handle_def)
next
  case (SetRandom b)
  with assms show ?thesis by (simp add: handle_def)
next
  case (SetItems its)
  with assms show ?thesis by (simp add: handle_def)
next
  case ClickTestPlay
  with assms show ?thesis by (simp add: handle_def state_speak)
next
  case (TimerFires i)
  show ?thesis
  proof (cases "List.find (\<lambda>t. fst t = i) (timers w)")
    case None
    with TimerFires assms show ?thesis by (simp add: handle_def)
  next
    case (Some t)
    obtain a b cb where t: "t = (a, b, cb)" by (cases t)
    let ?w = "w\<lparr>timers := filter (\<lambda>t. fst t \<noteq> i) (timers w)\<rparr>"
    have h: "handle e w = runCallback cb ?w"
      using TimerFires Some t by (simp add: handle_def)
    have "phase (state ?w) \<noteq> Practice"
      using assms(2) by simp
    from entering_practice_runCallback [OF _ this, of cb] assms(1) h show ?thesis
      by simp
  qed
next
  case UtteranceEnds
  show ?thesis
  proof (cases "speaking w")
    case None
    with UtteranceEnds assms show ?thesis by (simp add: handle_def)
  next
    case (Some u)
    obtain tx cb where u: "u = (tx, cb)" by (cases u)
    have h: "handle e w = runSpeechCallback cb (w\<lparr>speaking := None\<rparr>)"
      using UtteranceEnds Some u by (simp add: handle_def)
    from phase_runSpeechCallback [of cb "w\<lparr>speaking := None\<rparr>"] assms h show ?thesis
      by simp
  qed
next
  case CancelledUtteranceEnds
  show ?thesis
  proof (cases "cancelled w")
    case Nil
    with CancelledUtteranceEnds assms show ?thesis by (simp add: handle_def)
  next
    case (Cons cb rest)
    have h: "handle e w = runSpeechCallback (Some cb) (w\<lparr>cancelled := rest\<rparr>)"
      using CancelledUtteranceEnds Cons by (simp add: handle_def)
    from phase_runSpeechCallback [of "Some cb" "w\<lparr>cancelled := rest\<rparr>"] assms h show ?thesis
      by simp
  qed
next
  case (RecResult ri rs)
  show ?thesis
  proof (cases "recActive w")
    case False
    with RecResult assms show ?thesis by (simp add: handle_def)
  next
    case True
    have "phase (state (onresult (recHandlerRender w) ri rs w)) = Practice"
      using RecResult True assms(1) by (simp add: handle_def Let_def split: if_splits)
    from phase_onresult [OF this] assms(2) show ?thesis by simp
  qed
next
  case RecEnds
  with assms show ?thesis by (simp add: handle_def setter_defs)
qed

text \<open>
  Claim C7. Every call of \<^verbatim>\<open>ask\<close>, from any render and in any state, leaves the tracker at
  \<open>{yes: true, no: true}\<close> and the phase at \<open>practice\<close>; recognition is started after the reset,
  by \<^verbatim>\<open>ask\<close> itself without speech output and by the utterance's callback otherwise. No event
  brings the component into the practice phase in another way.
\<close>

theorem ask_resets_tracker:
  "needed (state (ask h w)) = \<lparr>yes = True, no = True\<rparr>
   \<and> phase (state (ask h w)) = Practice
   \<and> (\<not> useTTS h \<longrightarrow>
        ask h w = armPracticeTimer h (startRecognition (setPhase Practice (resetNeeded w))))
   \<and> (useTTS h \<longrightarrow> recActive (ask h w) = recActive w)
   \<and> (phase (state (step e w)) = Practice \<and> phase (state w) \<noteq> Practice
        \<longrightarrow> needed (state (step e w)) = \<lparr>yes = True, no = True\<rparr>)"
proof -
  have b: "\<not> useTTS h \<longrightarrow>
        ask h w = armPracticeTimer h (startRecognition (setPhase Practice (resetNeeded w)))"
    by (simp add: ask_def Let_def)
  have c: "useTTS h \<longrightarrow> recActive (ask h w) = recActive w"
    by (simp add: ask_def Let_def speak_def resetNeeded_def setter_defs)
  have d: "phase (state (step e w)) = Practice \<and> phase (state w) \<noteq> Practice
        \<longrightarrow> needed (state (step e w)) = \<lparr>yes = True, no = True\<rparr>"
    using entering_practice_handle [of e w] by (simp add: step_def state_autoAdvanceEffect)
  from state_ask [of h w] b c d show ?thesis
    by blast
qed

theorem ask_resets_tracker_witness:
  "phase (state (step ClickAsk (demoWorld []))) = Practice
   \<and> phase (state (demoWorld [])) \<noteq> Practice
   \<and> useTTS (state (demoWorld []))
   \<and> needed (state (step ClickAsk (demoWorld []))) = \<lparr>yes = True, no = True\<rparr>
   \<and> recActive (ask (state (demoWorld [])) (demoWorld [])) = recActive (demoWorld [])
   \<and> \<not> useTTS ((state (demoWorld []))\<lparr>useTTS := False\<rparr>)
   \<and> ask ((state (demoWorld []))\<lparr>useTTS := False\<rparr>) (demoWorld [])
       = armPracticeTimer ((state (demoWorld []))\<lparr>useTTS := False\<rparr>)
           (startRecognition (setPhase Practice (resetNeeded (demoWorld []))))"
proof -
  have 1: "phase (state (step ClickAsk (demoWorld []))) = Practice"
    by (simp add: ctl_defs)
  have 2: "phase (state (demoWorld [])) \<noteq> Practice"
    by (simp add: ctl_defs)
  have 3: "useTTS (state (demoWorld []))"
    by (simp add: ctl_defs)
  have 4: "\<not> useTTS ((state (demoWorld []))\<lparr>useTTS := False\<rparr>)"
    by simp
  show ?thesis
    using 1 2 3 4
      ask_resets_tracker [of "state (demoWorld [])" "demoWorld []" ClickAsk]
      ask_resets_tracker [of "(state (demoWorld []))\<lparr>useTTS := False\<rparr>" "demoWorld []" ClickAsk]
    by blast
qed

section \<open>The render of the recognition handler\<close>

lemma rec_randomIndex: "recHandlerRender (snd (randomIndex n w)) = recHandlerRender w"
  by (simp add: randomIndex_def split: list.splits)

lemma rec_redraw: "recHandlerRender (snd (redraw view cid idx guard w)) = recHandlerRender w"
proof (induction view cid idx guard w rule: redraw.induct)
  case (1 view cid idx guard w)
  show ?case
  proof (cases "(case nth_opt view idx of None \<Rightarrow> False | Some it \<Rightarrow> Some (item_id it) = cid) \<and> guard < 10")
    case True
    obtain i' w' where r: "randomIndex (length view) w = (i', w')"
      by (cases "randomIndex (length view) w")
    have a: "recHandlerRender w' = recHandlerRender w"
      using rec_randomIndex [of "length view" w] r by simp
    have b: "recHandlerRender (snd (redraw view cid i' (Suc guard) w')) = recHandlerRender w'"
      using "1.IH" [OF True r [symmetric] refl] .
    have "redraw view cid idx guard w = redraw view cid i' (Suc guard) w'"
      using True r by (subst redraw.simps) simp
    with a b show ?thesis by simp
  next
    case False
    then have "redraw view cid idx guard w = (idx, w)"
      by (subst redraw.simps) auto
    then show ?thesis by simp
  qed
qed

lemma rec_goNext: "recHandlerRender (goNext h w) = recHandlerRender w"
proof (cases "sessionActive h")
  case True
  then show ?thesis
    by (simp add: goNext_def Let_def resetNeeded_def setter_defs)
next
  case False
  show ?thesis
  proof (cases "viewItems h = []")
    case True
    with False show ?thesis by (simp add: goNext_def)
  next
    case ne: False
    obtain idx wa where r: "randomIndex (length (viewItems h)) w = (idx, wa)"
      by (cases "randomIndex (length (viewItems h)) w")
    obtain idx' wb where p:
      "(if 1 < length (viewItems h)
        then redraw (viewItems h) (map_option item_id (current h)) idx 0 wa else (idx, wa)) = (idx', wb)"
      by (cases "if 1 < length (viewItems h)
        then redraw (viewItems h) (map_option item_id (current h)) idx 0 wa else (idx, wa)")
    have a: "recHandlerRender wa = recHandlerRender w"
      using rec_randomIndex [of "length (viewItems h)" w] r by simp
    have b: "recHandlerRender wb = recHandlerRender wa"
      using p rec_redraw [of "viewItems h" "map_option item_id (current h)" idx 0 wa]
      by (auto split: if_splits)
    from False ne r p a b show ?thesis
      by (simp add: goNext_def Let_def resetNeeded_def setter_defs)
  qed
qed

lemma rec_speak: "recHandlerRender (speak q cb w) = recHandlerRender w"
  by (simp add: speak_def)

lemma rec_armPracticeTimer: "recHandlerRender (armPracticeTimer h w) = recHandlerRender w"
  by (simp add: armPracticeTimer_def Let_def setTimeout_def clearTimeout_def split: option.splits)

lemma rec_startRecognition: "recHandlerRender (startRecognition w) = recHandlerRender w"
  by (simp add: startRecognition_def Let_def setter_defs)

lemma rec_ask: "recHandlerRender (ask h w) = recHandlerRender w"
  by (simp add: ask_def Let_def rec_speak rec_armPracticeTimer rec_startRecognition
      resetNeeded_def setter_defs)

lemma rec_askSpoken: "recHandlerRender (askSpoken h w) = recHandlerRender w"
  by (simp add: askSpoken_def rec_armPracticeTimer setTimeout_def)

lemma rec_reveal: "recHandlerRender (reveal h w) = recHandlerRender w"
  by (simp add: reveal_def Let_def rec_speak rec_goNext setter_defs)

lemma rec_fastReveal: "recHandlerRender (fastReveal h w) = recHandlerRender w"
  by (simp add: fastReveal_def rec_reveal clearTimeout_def split: option.splits)

lemma rec_onresult: "recHandlerRender (onresult h ri rs w) = recHandlerRender w"
  by (simp add: onresult_def Let_def rec_fastReveal setter_defs split: option.splits)

lemma rec_runSpeechCallback: "recHandlerRender (runSpeechCallback cb w) = recHandlerRender w"
  by (simp add: runSpeechCallback_def rec_askSpoken rec_goNext
      split: option.splits speech_callback.splits)

lemma rec_runCallback: "recHandlerRender (runCallback cb w) = recHandlerRender w"
  by (simp add: runCallback_def rec_reveal rec_startRecognition rec_ask split: callback.splits)

lemma rec_handle: "recHandlerRender (handle e w) = recHandlerRender w"
  by (cases e)
    (simp_all add: handle_def rec_ask rec_speak rec_onresult rec_runCallback rec_runSpeechCallback
      buildSession_def resetNeeded_def setter_defs Let_def split: option.splits list.splits)

lemma rec_step: "recHandlerRender (step e w) = recHandlerRender w"
  by (simp add: step_def autoAdvanceEffect_def setTimeout_def rec_handle)

lemma rec_run: "recHandlerRender (run es w) = recHandlerRender w"
  by (induction es arbitrary: w) (simp_all add: run_def rec_step)

text \<open>
  In every run, a recognition result changes neither the phase nor the armed timeouts: the
  \<^verbatim>\<open>fastReveal\<close> of the handler reads the phase of the first render, which is \<open>idle\<close>.
\<close>

lemma onresult_stale:
  assumes "phase h \<noteq> Practice"
  shows "\<exists>r n. onresult h ri rs w = w\<lparr>state := (state w)\<lparr>recognized := r, needed := n\<rparr>\<rparr>"
proof -
  let ?t = "concat (map fst (drop ri rs))"
  have 1: "setRecognized ?t w = w\<lparr>state := (state w)\<lparr>recognized := ?t, needed := needed (state w)\<rparr>\<rparr>"
    by (simp add: setter_defs)
  have 2: "setNeeded n (setRecognized ?t w) = w\<lparr>state := (state w)\<lparr>recognized := ?t, needed := n\<rparr>\<rparr>" for n
    by (simp add: setter_defs)
  show ?thesis
  proof (cases "rs \<noteq> [] \<and> snd (last rs)")
    case False
    then have "onresult h ri rs w = setRecognized ?t w"
      by (cases "rs = []") (simp_all add: onresult_def Let_def)
    with 1 show ?thesis by metis
  next
    case True
    show ?thesis
    proof (cases "parseYesNo (Some ?t)")
      case None
      with True have "onresult h ri rs w = setRecognized ?t w"
        by (simp add: onresult_def Let_def)
      with 1 show ?thesis by metis
    next
      case (Some yn)
      have fr: "fastReveal h x = x" for x
        using assms by (simp add: fastReveal_def)
      have "onresult h ri rs w =
              setNeeded (case yn of Yes \<Rightarrow> (needed (state w))\<lparr>yes := False\<rparr>
                                   | No \<Rightarrow> (needed (state w))\<lparr>no := False\<rparr>)
                (setRecognized ?t w)"
        using True Some by (simp add: onresult_def Let_def fr setRecognized_def)
      with 2 show ?thesis by metis
    qed
  qed
qed

lemma recResult_never_reveals:
  "phase (state (step (RecResult ri rs) (run es (mount its rt st rnd))))
     = phase (state (run es (mount its rt st rnd)))
   \<and> timers (step (RecResult ri rs) (run es (mount its rt st rnd)))
     = timers (run es (mount its rt st rnd))"
proof -
  let ?w = "run es (mount its rt st rnd)"
  have "recHandlerRender ?w = initialHooks its"
    by (simp add: rec_run mount_def)
  then have idle: "phase (recHandlerRender ?w) \<noteq> Practice"
    by (simp add: initialHooks_def)
  obtain r n where o: "onresult (recHandlerRender ?w) ri rs ?w = ?w\<lparr>state := (state ?w)\<lparr>recognized := r, needed := n\<rparr>\<rparr>"
    using onresult_stale [OF idle] by blast
  show ?thesis
    by (simp add: step_def handle_def autoAdvanceEffect_def Let_def o)
qed


text \<open>
  Claim C1. In the run \<^const>\<open>earlyRevealRun\<close> both transcripts arrive as final results in the
  practice phase while recognition is running. After the second one both tracker flags are
  false, but the phase is still \<open>practice\<close> and countdown 2 is still armed: no reveal has taken
  place; the countdown then fires and reveals.
\<close>

theorem both_answers_do_not_reveal:
  "phase (state (run (take 3 earlyRevealRun) (demoWorld []))) = Practice
   \<and> recActive (run (take 3 earlyRevealRun) (demoWorld []))
   \<and> needed (state (run (take 4 earlyRevealRun) (demoWorld []))) = \<lparr>yes = False, no = True\<rparr>
   \<and> phase (state (run (take 6 earlyRevealRun) (demoWorld []))) = Practice
   \<and> recActive (run (take 6 earlyRevealRun) (demoWorld []))
   \<and> needed (state (run earlyRevealRun (demoWorld []))) = \<lparr>yes = False, no = False\<rparr>
   \<and> phase (state (run earlyRevealRun (demoWorld []))) = Practice
   \<and> map fst (countdownTimers (run earlyRevealRun (demoWorld []))) = [2]
   \<and> phase (state (step (TimerFires 2) (run earlyRevealRun (demoWorld [])))) = Reveal"
  by (simp add: earlyRevealRun_def ctl_defs parseYesNo_Yes parseYesNo_No)

section \<open>Countdowns in every run\<close>

text \<open>
  In every run at most one countdown is armed, and arming one (the two lines of \<^verbatim>\<open>ask\<close>)
  leaves exactly the new one armed. \<^verbatim>\<open>reveal\<close> and \<^verbatim>\<open>goNext\<close> leave the armed timeouts as
  they are.
\<close>

lemma countdown_at_most_one:
  "length (countdownTimers (run es (mount its rt st rnd))) \<le> 1
   \<and> countdownTimers (armPracticeTimer h (run es (mount its rt st rnd)))
       = [(nextTimerId (run es (mount its rt st rnd)), practiceSec h * 1000, RevealCb h)]"
proof -
  have ok: "timersOk (run es (mount its rt st rnd))"
    by (rule timersOk_run [OF timersOk_mount])
  from timersOk_at_most_one [OF ok] countdown_armPracticeTimer [OF ok] show ?thesis
    by simp
qed

lemma timers_reveal_goNext:
  "timers (reveal h w) = timers w \<and> timers (goNext h w) = timers w"
  using sameTimers_reveal [of w h] sameTimers_goNext [of w h] by (simp add: sameTimers_def)

text \<open>
  Claim C2. In the run \<^const>\<open>staleCountdownRun\<close> countdown 2 is armed for question 1 while the
  answer of question 1 is being spoken. When the utterance ends, \<^verbatim>\<open>goNext\<close> advances to
  question 3 and leaves countdown 2 armed; the \<^verbatim>\<open>ask\<close> for question 3 enters the practice
  phase and, with speech output on, does not cancel it either before the question has been
  spoken. Countdown 2 then fires and reveals while question 3 is current.
\<close>

theorem stale_countdown_fires:
  "map fst (countdownTimers (run (take 8 staleCountdownRun) (demoWorld [2]))) = [2]
   \<and> countdownQuestions (run (take 8 staleCountdownRun) (demoWorld [2])) = [Some 1]
   \<and> map_option item_id (current (state (run (take 8 staleCountdownRun) (demoWorld [2])))) = Some 1
   \<and> map_option item_id (current (state (run (take 9 staleCountdownRun) (demoWorld [2])))) = Some 3
   \<and> map fst (countdownTimers (run (take 9 staleCountdownRun) (demoWorld [2]))) = [2]
   \<and> phase (state (run (take 10 staleCountdownRun) (demoWorld [2]))) = Practice
   \<and> map_option item_id (current (state (run (take 10 staleCountdownRun) (demoWorld [2])))) = Some 3
   \<and> countdownQuestions (run (take 10 staleCountdownRun) (demoWorld [2])) = [Some 1]
   \<and> phase (state (run staleCountdownRun (demoWorld [2]))) = Reveal"
  by (simp add: staleCountdownRun_def ctl_defs)

section \<open>The session cursor\<close>

text \<open>
  Starting a session puts the cursor at a valid index whenever the session is active, and a
  \<^verbatim>\<open>goNext\<close> whose render shows the session and cursor of the current state keeps the cursor
  valid or, at the last position, discards the session and sets the phase to \<open>idle\<close>.
\<close>

lemma buildSession_cursorValid:
  "sessionActive (state (buildSession sortRandom cnt h w))
     \<Longrightarrow> cursorValid (state (buildSession sortRandom cnt h w))"
  by (auto simp: buildSession_def Let_def resetNeeded_def setter_defs sessionActive_def cursorValid_def)

lemma goNext_cursorValid:
  assumes "sessionSet h = sessionSet (state w)" and "sessionCursor h = sessionCursor (state w)"
    and "sessionActive h" and "cursorValid h"
  shows "(sessionCursor h + 1 < length (the (sessionSet h))
           \<longrightarrow> sessionActive (state (goNext h w)) \<and> cursorValid (state (goNext h w))
               \<and> sessionCursor (state (goNext h w)) = sessionCursor h + 1)
       \<and> (sessionCursor h + 1 = length (the (sessionSet h))
           \<longrightarrow> sessionSet (state (goNext h w)) = None \<and> phase (state (goNext h w)) = Idle)"
  using assms
  by (auto simp: goNext_def Let_def resetNeeded_def setter_defs sessionActive_def cursorValid_def
      split: option.splits)

text \<open>
  Claim C6. In the run \<^const>\<open>staleAdvanceRun\<close> the session started last has one id and the
  cursor is at 0. The \<^verbatim>\<open>goNext\<close> that runs when the answer's utterance ends belongs to the
  render of the earlier session of three ids at cursor 0 and sets the cursor to 1: the session
  is active and the cursor is not an index of its sequence.
\<close>

theorem stale_advance_leaves_sequence:
  "sessionSet (state (run (take 7 staleAdvanceRun) (demoWorld []))) = Some [3]
   \<and> sessionCursor (state (run (take 7 staleAdvanceRun) (demoWorld []))) = 0
   \<and> sessionSet (state (run staleAdvanceRun (demoWorld []))) = Some [3]
   \<and> sessionCursor (state (run staleAdvanceRun (demoWorld []))) = 1
   \<and> sessionActive (state (run staleAdvanceRun (demoWorld [])))
   \<and> \<not> cursorValid (state (run staleAdvanceRun (demoWorld [])))"
  by (simp add: staleAdvanceRun_def ctl_defs)

section \<open>Properties of the import\<close>

text \<open>
  Claim C9. For every behaviour \<open>parse\<close> of \<^verbatim>\<open>JSON.parse\<close>: if it returns an array, the item list becomes that
  array and no alert is shown; if it throws or returns another value, the item list stays as
  it is and an alert is shown.
\<close>

theorem onImport_replaces_or_keeps:
  "(parse text = Some (JArray arr) \<longrightarrow> onImport parse text itemList = (arr, None))
   \<and> ((\<forall>a. parse text \<noteq> Some (JArray a))
        \<longrightarrow> fst (onImport parse text itemList) = itemList
            \<and> snd (onImport parse text itemList) \<noteq> None)"
  by (auto simp: onImport_def split: option.splits json.splits)

theorem onImport_replaces_or_keeps_witness:
  "JSON_parse ''[]'' = Some (JArray [])
   \<and> onImport JSON_parse ''[]'' [JString ''old''] = ([], None)
   \<and> (\<forall>a. JSON_parse ''{\"a\":1}'' \<noteq> Some (JArray a))
   \<and> fst (onImport JSON_parse ''{\"a\":1}'' [JString ''old'']) = [JString ''old'']
   \<and> snd (onImport JSON_parse ''{\"a\":1}'' [JString ''old'']) \<noteq> None"
proof -
  have 1: "JSON_parse ''[]'' = Some (JArray [])"
    by code_simp
  have "JSON_parse ''{\"a\":1}'' = Some (JObject [(''a'', JNumber 1)])"
    by code_simp
  then have 2: "\<forall>a. JSON_parse ''{\"a\":1}'' \<noteq> Some (JArray a)"
    by simp
  show ?thesis
    using 1 2
      onImport_replaces_or_keeps [of JSON_parse "''[]''" "[]" "[JString ''old'']"]
      onImport_replaces_or_keeps [of JSON_parse "''{\"a\":1}''" "[]" "[JString ''old'']"]
    by blast
qed

section \<open>The round trip through JSON\<close>

subsection \<open>Numbers\<close>















subsection \<open>Strings\<close>







subsection \<open>White space and first characters\<close>








subsection \<open>Fuel\<close>



subsection \<open>Objects\<close>




subsection \<open>Values\<close>


















end
